(* ===== verification/Prelude.thy ===== *)
theory Prelude
  imports Main "HOL-Library.Sublist" "HOL-Library.Multiset" "HOL-Library.Word"
begin

text \<open>
  Shared vocabulary of the development: Go errors as values, results, the two shapes of
  Go's error handling (\<open>x, err := f(); if err != nil { return err }\<close> and a loop that
  appends until the first error), the same with an explicit state, and generic facts on
  lists that the components use. Go strings and byte slices are both lists of bytes, that is
  of HOL's 8-bit \<open>char\<close>.
\<close>

section \<open>Errors and results\<close>

text \<open>
  An error made by \<open>fmt.Errorf\<close> or \<open>errors.Errorf\<close> is its format string with its
  arguments; one that wraps another (\<open>%w\<close>, \<open>errors.Wrap\<close>, \<open>errors.Wrapf\<close>) keeps
  the wrapped error; \<open>NumError\<close>, \<open>CorruptInputError\<close>, \<open>InvalidByteError\<close> and
  \<open>ErrLength\<close> are the standard library's error values of \<open>strconv\<close>,
  \<open>encoding/base64\<close> and \<open>encoding/hex\<close>; \<open>External\<close> is an error value that code
  outside the repository returned. \<open>Panic\<close> is not an error value: it is a run-time
  panic, which unwinds the callers without being wrapped by any of them.
\<close>

datatype go_error =
    Errorf string "string list"
  | Wrapf string "string list" go_error
  | NumError string string string
  | CorruptInputError
  | InvalidByteError char
  | ErrLength
  | External string
  | Panic string

type_synonym bytes = string

type_synonym 'a result = "go_error + 'a"

text \<open>Wrapping applies to error values only; a panic goes through unchanged.\<close>

definition wrapf :: "string \<Rightarrow> string list \<Rightarrow> go_error \<Rightarrow> go_error" where
  "wrapf fmt args e = (case e of Panic p \<Rightarrow> Panic p | _ \<Rightarrow> Wrapf fmt args e)"

fun is_panic :: "go_error \<Rightarrow> bool" where
  "is_panic (Panic p) = True"
| "is_panic e = False"

definition rbind :: "'e + 'a \<Rightarrow> ('a \<Rightarrow> 'e + 'b) \<Rightarrow> 'e + 'b" where
  "rbind m f = (case m of Inl e \<Rightarrow> Inl e | Inr x \<Rightarrow> f x)"

definition wrapErr :: "(go_error \<Rightarrow> go_error) \<Rightarrow> 'a result \<Rightarrow> 'a result" where
  "wrapErr w m = (case m of Inl e \<Rightarrow> Inl (w e) | Inr x \<Rightarrow> Inr x)"

text \<open>A check that returns only an error: \<open>Inr ()\<close> is Go's nil.\<close>

definition guardE :: "bool \<Rightarrow> go_error \<Rightarrow> unit result" where
  "guardE ok e = (if ok then Inr () else Inl e)"

text \<open>
  \<open>for _, x := range xs { y, err := f(x); if err != nil { return nil, err }; ys = append(ys, y) }\<close>
\<close>

fun mapE :: "('a \<Rightarrow> 'e + 'b) \<Rightarrow> 'a list \<Rightarrow> 'e + 'b list" where
  "mapE f [] = Inr []"
| "mapE f (x # xs) =
     (case f x of Inl e \<Rightarrow> Inl e
      | Inr y \<Rightarrow> (case mapE f xs of Inl e \<Rightarrow> Inl e | Inr ys \<Rightarrow> Inr (y # ys)))"

text \<open>A loop that updates an accumulator until the first error.\<close>

fun foldE :: "('a \<Rightarrow> 'b \<Rightarrow> 'e + 'a) \<Rightarrow> 'a \<Rightarrow> 'b list \<Rightarrow> 'e + 'a" where
  "foldE f a [] = Inr a"
| "foldE f a (x # xs) = (case f a x of Inl e \<Rightarrow> Inl e | Inr a' \<Rightarrow> foldE f a' xs)"

section \<open>Results with a state\<close>

type_synonym ('s, 'a) io = "'s \<Rightarrow> 'a result \<times> 's"

definition sreturn :: "'a \<Rightarrow> ('s, 'a) io" where
  "sreturn x s = (Inr x, s)"

definition slift :: "'a result \<Rightarrow> ('s, 'a) io" where
  "slift r s = (r, s)"

definition sbind :: "('s, 'a) io \<Rightarrow> ('a \<Rightarrow> ('s, 'b) io) \<Rightarrow> ('s, 'b) io" where
  "sbind m f s = (case m s of (Inl e, s') \<Rightarrow> (Inl e, s') | (Inr x, s') \<Rightarrow> f x s')"

fun mapS :: "('a \<Rightarrow> ('s, 'b) io) \<Rightarrow> 'a list \<Rightarrow> ('s, 'b list) io" where
  "mapS f [] s = (Inr [], s)"
| "mapS f (x # xs) s =
     (case f x s of (Inl e, s') \<Rightarrow> (Inl e, s')
      | (Inr y, s') \<Rightarrow>
          (case mapS f xs s' of (Inl e, s'') \<Rightarrow> (Inl e, s'') | (Inr ys, s'') \<Rightarrow> (Inr (y # ys), s'')))"

named_theorems result_simps \<open>evaluation and inversion of results\<close>

lemma rbind_simps [simp]:
  "rbind (Inl e) f = Inl e" "rbind (Inr x) f = f x"
  by (simp_all add: rbind_def)

lemma rbind_eq_Inr [result_simps]:
  "rbind m f = Inr y \<longleftrightarrow> (\<exists>x. m = Inr x \<and> f x = Inr y)"
  by (cases m) auto

lemma rbind_eq_Inl [result_simps]:
  "rbind m f = Inl e \<longleftrightarrow> m = Inl e \<or> (\<exists>x. m = Inr x \<and> f x = Inl e)"
  by (cases m) auto

lemma rbind_cong [fundef_cong]:
  "m = m' \<Longrightarrow> (\<And>x. m' = Inr x \<Longrightarrow> f x = f' x) \<Longrightarrow> rbind m f = rbind m' f'"
  by (cases m') auto

lemma wrapErr_simps [simp]:
  "wrapErr w (Inl e) = Inl (w e)" "wrapErr w (Inr x) = Inr x"
  by (simp_all add: wrapErr_def)

lemma wrapErr_eq_Inr [result_simps]: "wrapErr w m = Inr x \<longleftrightarrow> m = Inr x"
  by (cases m) auto

lemma guardE_eq [result_simps]:
  "guardE ok e = Inr u \<longleftrightarrow> ok"
  "guardE ok e = Inl e' \<longleftrightarrow> \<not> ok \<and> e = e'"
  by (auto simp: guardE_def)

lemma guardE_simps [simp]: "guardE True e = Inr ()" "guardE False e = Inl e"
  by (simp_all add: guardE_def)

lemma wrapf_is_panic [simp]: "is_panic (wrapf fmt args e) = is_panic e"
  by (cases e) (auto simp: wrapf_def)

lemma wrapf_Panic [simp]: "wrapf fmt args (Panic p) = Panic p"
  by (simp add: wrapf_def)

lemma wrapf_eq_Panic [simp]: "wrapf fmt args e = Panic p \<longleftrightarrow> e = Panic p"
  by (cases e) (auto simp: wrapf_def)

lemma mapE_eq_Inr [result_simps]:
  "mapE f xs = Inr ys \<longleftrightarrow> list_all2 (\<lambda>x y. f x = Inr y) xs ys"
proof (induction xs arbitrary: ys)
  case (Cons x xs)
  then show ?case
    by (cases ys; cases "f x"; cases "mapE f xs") (auto simp: list_all2_Cons1)
qed auto

lemma mapE_eq_Inl:
  "mapE f xs = Inl e \<longleftrightarrow>
     (\<exists>us x vs. xs = us @ x # vs \<and> (\<forall>u\<in>set us. \<exists>y. f u = Inr y) \<and> f x = Inl e)"
  (is "?L xs \<longleftrightarrow> ?R xs")
proof (induction xs)
  case (Cons x xs)
  show ?case
  proof (cases "f x")
    case (Inl e')
    then have "?R (x # xs)" if "e' = e"
      using that by (intro exI[of _ "[]"]) auto
    moreover have "e' = e" if "?R (x # xs)"
      using that Inl by (auto simp: Cons_eq_append_conv)
    ultimately show ?thesis using Inl by auto
  next
    case (Inr y)
    have "?L (x # xs) \<longleftrightarrow> ?L xs"
      using Inr by (auto split: sum.splits)
    moreover have "?R (x # xs)" if R: "?R xs"
    proof -
      from R obtain us z vs where "xs = us @ z # vs" "\<forall>u\<in>set us. \<exists>y. f u = Inr y" "f z = Inl e"
        by blast
      with Inr show ?thesis by (intro exI[of _ "x # us"] exI[of _ z] exI[of _ vs]) auto
    qed
    moreover have "?R xs" if "?R (x # xs)"
      using that Inr by (auto simp: Cons_eq_append_conv) blast
    ultimately show ?thesis using Cons.IH by blast
  qed
qed simp

lemma mapE_all: "(\<And>x. x \<in> set xs \<Longrightarrow> f x = Inr (g x)) \<Longrightarrow> mapE f xs = Inr (map g xs)"
  by (induction xs) auto

lemma sreturn_apply [simp]: "sreturn x s = (Inr x, s)"
  by (simp add: sreturn_def)

lemma slift_apply [simp]: "slift r s = (r, s)"
  by (simp add: slift_def)

lemma sbind_apply:
  "sbind m f s = (case m s of (Inl e, s') \<Rightarrow> (Inl e, s') | (Inr x, s') \<Rightarrow> f x s')"
  by (simp add: sbind_def)

lemma sbind_lift [simp]:
  "sbind (slift (Inl e)) f s = (Inl e, s)" "sbind (slift (Inr x)) f s = f x s"
  "sbind (sreturn x) f s = f x s"
  by (simp_all add: sbind_def)

lemma sbind_eq_Inr [result_simps]:
  "sbind m f s = (Inr y, s') \<longleftrightarrow> (\<exists>x t. m s = (Inr x, t) \<and> f x t = (Inr y, s'))"
  by (auto simp: sbind_def split: prod.splits sum.splits)

lemma sbind_eq_Inl [result_simps]:
  "sbind m f s = (Inl e, s') \<longleftrightarrow>
     m s = (Inl e, s') \<or> (\<exists>x t. m s = (Inr x, t) \<and> f x t = (Inl e, s'))"
  by (auto simp: sbind_def split: prod.splits sum.splits)

text \<open>An invariant of the state kept by every iteration is kept by the loop.\<close>

lemma mapS_state_rel:
  assumes step: "\<And>x s r s'. x \<in> set xs \<Longrightarrow> f x s = (r, s') \<Longrightarrow> R s s'"
    and refl: "\<And>s. R s s" and trans: "\<And>a b c. R a b \<Longrightarrow> R b c \<Longrightarrow> R a c"
    and run: "mapS f xs s = (r, s')"
  shows "R s s'"
  using step run
proof (induction xs arbitrary: s r s')
  case Nil
  then show ?case by (simp add: refl)
next
  case (Cons x xs)
  obtain r1 s1 where x: "f x s = (r1, s1)" by fastforce
  have R1: "R s s1" using Cons.prems(1)[OF _ x] by simp
  show ?case
  proof (cases r1)
    case (Inl e)
    with x R1 Cons.prems(2) show ?thesis by simp
  next
    case (Inr y)
    obtain r2 s2 where xs: "mapS f xs s1 = (r2, s2)" by fastforce
    have "R s1 s2" using Cons.IH[OF _ xs] Cons.prems(1) by auto
    moreover have "s2 = s'"
      using Cons.prems(2) x xs Inr by (auto split: sum.splits)
    ultimately show ?thesis using R1 trans by blast
  qed
qed

text \<open>What every iteration guarantees of its result holds of every element of the result.\<close>

lemma mapS_all:
  assumes "mapS f xs s = (Inr ys, s')"
    and "\<And>x s y s'. x \<in> set xs \<Longrightarrow> f x s = (Inr y, s') \<Longrightarrow> P x y"
  shows "list_all2 P xs ys"
  using assms
proof (induction xs arbitrary: s ys)
  case (Cons x xs)
  from Cons.prems(1) obtain y s1 zs where
    x: "f x s = (Inr y, s1)" and xs: "mapS f xs s1 = (Inr zs, s')" and ys: "ys = y # zs"
    by (auto split: prod.splits sum.splits)
  with Cons.IH[OF xs] Cons.prems(2) show ?case by auto
qed simp

section \<open>Lists\<close>

fun split_on :: "'a \<Rightarrow> 'a list \<Rightarrow> 'a list list" where
  "split_on c [] = [[]]"
| "split_on c (x # xs) =
     (if x = c then [] # split_on c xs
      else (case split_on c xs of [] \<Rightarrow> [[x]] | y # ys \<Rightarrow> (x # y) # ys))"

fun join_with :: "'a list \<Rightarrow> 'a list list \<Rightarrow> 'a list" where
  "join_with s [] = []"
| "join_with s [x] = x"
| "join_with s (x # y # zs) = x @ s @ join_with s (y # zs)"

lemma split_on_not_Nil [simp]: "split_on c xs \<noteq> []"
  by (induction xs) (auto split: list.splits)

lemma split_on_no_sep: "c \<notin> set xs \<Longrightarrow> split_on c xs = [xs]"
  by (induction xs) auto

lemma split_on_append_sep:
  "split_on c (xs @ c # ys) = split_on c xs @ split_on c ys"
  by (induction xs) (auto split: list.splits)

lemma split_on_elem: "x \<in> set (split_on c xs) \<Longrightarrow> c \<notin> set x"
proof (induction xs arbitrary: x)
  case (Cons a xs)
  then show ?case
    by (cases "split_on c xs") (auto split: if_splits)
qed simp

lemma split_on_join:
  "xs \<noteq> [] \<Longrightarrow> (\<And>x. x \<in> set xs \<Longrightarrow> c \<notin> set x) \<Longrightarrow> split_on c (join_with [c] xs) = xs"
proof (induction "[c]" xs rule: join_with.induct)
  case (3 x y zs)
  then show ?case by (simp add: split_on_append_sep split_on_no_sep)
qed (auto simp: split_on_no_sep)

lemma join_split_on: "join_with [c] (split_on c xs) = xs"
proof (induction xs)
  case (Cons a xs)
  obtain y ys where s: "split_on c xs = y # ys" by (cases "split_on c xs") auto
  with Cons show ?case by (cases ys) auto
qed simp

text \<open>The elements of \<open>split_on\<close> around a suffix: only the last element grows.\<close>

lemma split_on_append_no_sep:
  assumes "c \<notin> set ys"
  shows "split_on c (xs @ ys) = butlast (split_on c xs) @ [last (split_on c xs) @ ys]"
proof (induction xs)
  case Nil
  with assms show ?case by (simp add: split_on_no_sep)
next
  case (Cons a xs)
  obtain u us where "split_on c xs = u # us" by (cases "split_on c xs") auto
  with Cons show ?case by (cases us) auto
qed

end
