(* ===== verification/GoStrings.thy ===== *)
theory GoStrings
  imports Prelude
begin

text \<open>
  What the repository uses of Go's \<open>strings\<close>, \<open>strconv\<close> and \<open>path/filepath\<close>
  (on a Unix build: the separator is \<open>/\<close>). Go strings are UTF-8 byte sequences, and the
  functions that classify or fold characters work on the decoded runes; the models below
  name the byte sequences of the few non-ASCII runes that matter.
\<close>

section \<open>strings\<close>

definition asciiSpaces :: "string list" where
  "asciiSpaces = [[CHR 0x09], [CHR 0x0A], [CHR 0x0B], [CHR 0x0C], [CHR 0x0D], [CHR 0x20]]"

text \<open>The UTF-8 encodings of the non-ASCII runes for which \<open>unicode.IsSpace\<close> holds:
  U+0085, U+00A0, U+1680, U+2000 to U+200A, U+2028, U+2029, U+202F, U+205F and U+3000.\<close>

definition unicodeSpaces :: "string list" where
  "unicodeSpaces =
     [[CHR 0xC2, CHR 0x85], [CHR 0xC2, CHR 0xA0], [CHR 0xE1, CHR 0x9A, CHR 0x80],
      [CHR 0xE2, CHR 0x80, CHR 0x80], [CHR 0xE2, CHR 0x80, CHR 0x81],
      [CHR 0xE2, CHR 0x80, CHR 0x82], [CHR 0xE2, CHR 0x80, CHR 0x83],
      [CHR 0xE2, CHR 0x80, CHR 0x84], [CHR 0xE2, CHR 0x80, CHR 0x85],
      [CHR 0xE2, CHR 0x80, CHR 0x86], [CHR 0xE2, CHR 0x80, CHR 0x87],
      [CHR 0xE2, CHR 0x80, CHR 0x88], [CHR 0xE2, CHR 0x80, CHR 0x89],
      [CHR 0xE2, CHR 0x80, CHR 0x8A], [CHR 0xE2, CHR 0x80, CHR 0xA8],
      [CHR 0xE2, CHR 0x80, CHR 0xA9], [CHR 0xE2, CHR 0x80, CHR 0xAF],
      [CHR 0xE2, CHR 0x81, CHR 0x9F], [CHR 0xE3, CHR 0x80, CHR 0x80]]"

definition spaceRunes :: "string list" where
  "spaceRunes = asciiSpaces @ unicodeSpaces"

lemma find_prefix_shorter:
  "find (\<lambda>p. p \<noteq> [] \<and> prefix p s) ps = Some p \<Longrightarrow> length (drop (length p) s) < length s"
  by (auto simp: find_Some_iff prefix_def)

function trimFront :: "string list \<Rightarrow> string \<Rightarrow> string" where
  "trimFront ps s =
     (case find (\<lambda>p. p \<noteq> [] \<and> prefix p s) ps of
        None \<Rightarrow> s
      | Some p \<Rightarrow> trimFront ps (drop (length p) s))"
  by pat_completeness auto
termination
  by (relation "measure (\<lambda>(ps, s). length s)") (use find_prefix_shorter in auto)

declare trimFront.simps [simp del]

definition TrimSpace :: "string \<Rightarrow> string" where
  "TrimSpace s = rev (trimFront (map rev spaceRunes) (rev (trimFront spaceRunes s)))"

definition lowerChar :: "char \<Rightarrow> char" where
  "lowerChar c =
     (let n = of_char c :: nat in if 65 \<le> n \<and> n \<le> 90 then char_of (n + 32) else c)"

text \<open>Case mapping of a byte string, given the table of the non-ASCII runes (as bytes) that
  map to an ASCII letter.\<close>

function foldRunes :: "(string \<times> char) list \<Rightarrow> string \<Rightarrow> string" where
  "foldRunes tbl [] = []"
| "foldRunes tbl (c # cs) =
     (case find (\<lambda>(r, d). r \<noteq> [] \<and> prefix r (c # cs)) tbl of
        None \<Rightarrow> lowerChar c # foldRunes tbl cs
      | Some (r, d) \<Rightarrow> d # foldRunes tbl (drop (length r) (c # cs)))"
  by pat_completeness auto
termination
  by (relation "measure (\<lambda>(tbl, s). length s)") (auto simp: find_Some_iff prefix_def)

text \<open>\<open>strings.EqualFold\<close>: simple Unicode folding. Among the runes that fold to an ASCII
  letter only U+017F (to s) and U+212A (to k) are not ASCII. Every call in the repository
  compares with an ASCII constant, and there this is exact.\<close>

definition foldTable :: "(string \<times> char) list" where
  "foldTable = [([CHR 0xC5, CHR 0xBF], CHR ''s''), ([CHR 0xE2, CHR 0x84, CHR 0xAA], CHR ''k'')]"

definition EqualFold :: "string \<Rightarrow> string \<Rightarrow> bool" where
  "EqualFold s t \<longleftrightarrow> foldRunes foldTable s = foldRunes foldTable t"

text \<open>\<open>strings.ToLower\<close>, exact where the result is compared with ASCII text: the non-ASCII
  runes whose lower case is ASCII are U+0130 (i) and U+212A (k).\<close>

definition lowerTable :: "(string \<times> char) list" where
  "lowerTable = [([CHR 0xC4, CHR 0xB0], CHR ''i''), ([CHR 0xE2, CHR 0x84, CHR 0xAA], CHR ''k'')]"

definition ToLower :: "string \<Rightarrow> string" where
  "ToLower s = foldRunes lowerTable s"

text \<open>\<open>strings.Cut\<close>: the text around the first occurrence of a separator.\<close>

fun Cut :: "string \<Rightarrow> string \<Rightarrow> (string \<times> string) option" where
  "Cut sep [] = (if sep = [] then Some ([], []) else None)"
| "Cut sep (c # cs) =
     (if prefix sep (c # cs) then Some ([], drop (length sep) (c # cs))
      else map_option (\<lambda>(a, b). (c # a, b)) (Cut sep cs))"

definition TrimSuffix :: "string \<Rightarrow> string \<Rightarrow> string" where
  "TrimSuffix s suf = (if suffix suf s then take (length s - length suf) s else s)"

section \<open>strconv\<close>

definition ParseBool :: "string \<Rightarrow> bool result" where
  "ParseBool s =
     (if s \<in> {''1'', ''t'', ''T'', ''true'', ''TRUE'', ''True''} then Inr True
      else if s \<in> {''0'', ''f'', ''F'', ''false'', ''FALSE'', ''False''} then Inr False
      else Inl (NumError ''ParseBool'' s ''invalid syntax''))"

definition digitVal :: "char \<Rightarrow> nat option" where
  "digitVal c =
     (let n = of_char c :: nat; m = of_char (lowerChar c) :: nat in
      if 48 \<le> n \<and> n \<le> 57 then Some (n - 48)
      else if 97 \<le> m \<and> m \<le> 122 then Some (m - 97 + 10)
      else None)"

text \<open>The digit loop of \<open>strconv.ParseUint\<close> for an explicit base: the first digit that is
  not of the base is a syntax error, the first partial value above the width a range
  error.\<close>

fun parseUintLoop :: "nat \<Rightarrow> nat \<Rightarrow> nat \<Rightarrow> string \<Rightarrow> string + nat" where
  "parseUintLoop base maxVal n [] = Inr n"
| "parseUintLoop base maxVal n (c # cs) =
     (case digitVal c of
        None \<Rightarrow> Inl ''invalid syntax''
      | Some d \<Rightarrow>
          if base \<le> d then Inl ''invalid syntax''
          else if maxVal < n * base + d then Inl ''value out of range''
          else parseUintLoop base maxVal (n * base + d) cs)"

definition ParseInt :: "string \<Rightarrow> nat \<Rightarrow> nat \<Rightarrow> int result" where
  "ParseInt s0 base bitSize =
     (let neg = prefix ''-'' s0;
          s = (if prefix ''-'' s0 \<or> prefix ''+'' s0 then tl s0 else s0);
          cutoff = 2 ^ (bitSize - 1)
      in if s = [] then Inl (NumError ''ParseInt'' s0 ''invalid syntax'')
         else (case parseUintLoop base (2 ^ bitSize - 1) 0 s of
             Inl e \<Rightarrow> Inl (NumError ''ParseInt'' s0 e)
           | Inr un \<Rightarrow>
               if \<not> neg \<and> cutoff \<le> un then Inl (NumError ''ParseInt'' s0 ''value out of range'')
               else if neg \<and> cutoff < un then Inl (NumError ''ParseInt'' s0 ''value out of range'')
               else Inr (if neg then - int un else int un)))"

fun Itoa :: "nat \<Rightarrow> string" where
  "Itoa n = (if n < 10 then [char_of (48 + n)] else Itoa (n div 10) @ [char_of (48 + n mod 10)])"

declare Itoa.simps [simp del]

section \<open>path/filepath\<close>

abbreviation slash :: char where
  "slash \<equiv> CHR ''/''"

definition IsAbs :: "string \<Rightarrow> bool" where
  "IsAbs p = prefix [slash] p"

text \<open>\<open>filepath.Clean\<close>: the elements left after dropping empty and \<open>.\<close> elements and
  resolving each \<open>..\<close> against the element before it; the stack is kept reversed.\<close>

fun cleanWalk :: "bool \<Rightarrow> string list \<Rightarrow> string list \<Rightarrow> string list" where
  "cleanWalk rooted st [] = rev st"
| "cleanWalk rooted st (e # es) =
     (if e = [] \<or> e = ''.'' then cleanWalk rooted st es
      else if e = ''..'' then
        (case st of
           [] \<Rightarrow> cleanWalk rooted (if rooted then [] else [''..'']) es
         | t # ts \<Rightarrow> cleanWalk rooted (if t = ''..'' then ''..'' # st else ts) es)
      else cleanWalk rooted (e # st) es)"

definition Clean :: "string \<Rightarrow> string" where
  "Clean p =
     (if p = [] then ''.''
      else let rooted = prefix [slash] p;
               out = join_with [slash] (cleanWalk rooted [] (split_on slash p))
           in if rooted then slash # out else if out = [] then ''.'' else out)"

text \<open>\<open>filepath.Join\<close> of two elements.\<close>

definition Join :: "string \<Rightarrow> string \<Rightarrow> string" where
  "Join a b =
     (if a \<noteq> [] then Clean (a @ [slash] @ b) else if b \<noteq> [] then Clean b else [])"

text \<open>A path that stays below the directory it is joined to.\<close>

definition safePath :: "string \<Rightarrow> bool" where
  "safePath p \<longleftrightarrow> p \<noteq> [] \<and> \<not> IsAbs p \<and> ''..'' \<notin> set (split_on slash p)"

section \<open>Facts on trimming and folding\<close>

lemma trimFront_suffix: "suffix (trimFront ps s) s"
proof (induction ps s rule: trimFront.induct)
  case (1 ps s)
  then show ?case
    by (subst trimFront.simps)
      (auto split: option.splits intro: suffix_order.trans[OF _ suffix_drop])
qed

lemma trimFront_no_prefix:
  "p \<in> set ps \<Longrightarrow> p \<noteq> [] \<Longrightarrow> \<not> prefix p (trimFront ps s)"
proof (induction ps s rule: trimFront.induct)
  case (1 ps s)
  then show ?case
    by (subst trimFront.simps) (auto split: option.splits simp: find_None_iff)
qed

lemma trimFront_fix:
  "(\<And>p. p \<in> set ps \<Longrightarrow> p \<noteq> [] \<Longrightarrow> \<not> prefix p s) \<Longrightarrow> trimFront ps s = s"
  by (subst trimFront.simps) (auto split: option.splits simp: find_Some_iff)

lemma TrimSpace_no_prefix:
  assumes "p \<in> set spaceRunes" "p \<noteq> []"
  shows "\<not> prefix p (TrimSpace s)"
proof
  assume p: "prefix p (TrimSpace s)"
  have "prefix (TrimSpace s) (trimFront spaceRunes s)"
    unfolding TrimSpace_def
    using trimFront_suffix[of "map rev spaceRunes" "rev (trimFront spaceRunes s)"]
    by (simp add: suffix_to_prefix)
  with p have "prefix p (trimFront spaceRunes s)" by (rule prefix_order.trans)
  with trimFront_no_prefix[OF assms] show False by blast
qed

lemma TrimSpace_no_suffix:
  assumes "p \<in> set spaceRunes" "p \<noteq> []"
  shows "\<not> suffix p (TrimSpace s)"
  using trimFront_no_prefix[of "rev p" "map rev spaceRunes" "rev (trimFront spaceRunes s)"] assms
  by (simp add: TrimSpace_def suffix_to_prefix)

lemma TrimSpace_idem [simp]: "TrimSpace (TrimSpace s) = TrimSpace s"
proof -
  have 1: "trimFront spaceRunes (TrimSpace s) = TrimSpace s"
    by (rule trimFront_fix) (rule TrimSpace_no_prefix)
  have 2: "trimFront (map rev spaceRunes) (rev (TrimSpace s)) = rev (TrimSpace s)"
  proof (rule trimFront_fix)
    fix p assume "p \<in> set (map rev spaceRunes)" "p \<noteq> []"
    then have "rev p \<in> set spaceRunes" "rev p \<noteq> []" by auto
    then have "\<not> suffix (rev p) (TrimSpace s)" by (rule TrimSpace_no_suffix)
    then show "\<not> prefix p (rev (TrimSpace s))" by (simp add: suffix_to_prefix)
  qed
  show ?thesis unfolding TrimSpace_def[of "TrimSpace s"] 1 2 by simp
qed

lemma TrimSpace_sublist: "sublist (TrimSpace s) s"
proof -
  have "prefix (TrimSpace s) (trimFront spaceRunes s)"
    unfolding TrimSpace_def
    using trimFront_suffix[of "map rev spaceRunes" "rev (trimFront spaceRunes s)"]
    by (simp add: suffix_to_prefix)
  moreover have "suffix (trimFront spaceRunes s) s" by (rule trimFront_suffix)
  ultimately show ?thesis
    by (metis prefix_imp_sublist sublist_order.order.trans suffix_imp_sublist)
qed

lemma EqualFold_refl [simp]: "EqualFold s s"
  by (simp add: EqualFold_def)

lemma Cut_Some: "Cut sep s = Some (a, b) \<Longrightarrow> s = a @ sep @ b"
proof (induction sep s arbitrary: a b rule: Cut.induct)
  case (2 sep c cs)
  then show ?case by (auto split: if_splits simp: prefix_def)
qed (auto split: if_splits)

lemma Cut_None_iff: "Cut sep s = None \<longleftrightarrow> \<not> sublist sep s"
proof (induction sep s rule: Cut.induct)
  case (2 sep c cs)
  then show ?case by (auto simp: sublist_Cons_right)
qed auto

lemma Cut_prefix: "prefix sep s \<Longrightarrow> Cut sep s = Some ([], drop (length sep) s)"
  by (cases s) auto

text \<open>Text without the separator's second character hides no earlier occurrence of it.\<close>

lemma Cut_first:
  assumes "y \<notin> set a" "x \<noteq> y"
  shows "Cut (x # y # zs) (a @ x # y # zs @ b) = Some (a, b)"
  using assms
proof (induction a)
  case Nil
  then show ?case by (simp add: Cut_prefix)
next
  case (Cons c a)
  have "\<not> prefix (x # y # zs) (c # a @ x # y # zs @ b)"
    using Cons.prems by (cases a) auto
  with Cons show ?case by simp
qed

lemma Cut_append: "Cut sep (sep @ b) = Some ([], b)"
  by (simp add: Cut_prefix)

section \<open>Facts on numbers\<close>

lemma Itoa_not_Nil [simp]: "Itoa n \<noteq> []"
  by (subst Itoa.simps) auto

lemma Itoa_digits: "c \<in> set (Itoa n) \<Longrightarrow> 48 \<le> (of_char c :: nat) \<and> (of_char c :: nat) \<le> 57"
proof (induction n rule: Itoa.induct)
  case (1 n)
  show ?case
  proof (cases "n < 10")
    case True
    with "1.prems" show ?thesis by (subst (asm) Itoa.simps) auto
  next
    case False
    with 1 show ?thesis by (subst (asm) (2) Itoa.simps) auto
  qed
qed

lemma Itoa_no_char: "(of_char c :: nat) < 48 \<Longrightarrow> c \<notin> set (Itoa n)"
  using Itoa_digits by force

lemma slash_notin_Itoa [simp]: "slash \<notin> set (Itoa n)"
  by (rule Itoa_no_char) simp

lemma Itoa_not_dots [simp]: "Itoa n \<noteq> ''.''" "Itoa n \<noteq> ''..''" "''..'' \<noteq> Itoa n"
proof -
  have "CHR ''.'' \<notin> set (Itoa n)" by (rule Itoa_no_char) simp
  then show "Itoa n \<noteq> ''.''" "Itoa n \<noteq> ''..''" "''..'' \<noteq> Itoa n"
    by (metis list.set_intros(1))+
qed

fun decVal :: "string \<Rightarrow> nat" where
  "decVal s = foldl (\<lambda>n c. n * 10 + (of_char c - 48)) 0 s"

lemma decVal_Itoa: "decVal (Itoa n) = n"
proof (induction n rule: Itoa.induct)
  case (1 n)
  then show ?case by (cases "n < 10"; subst Itoa.simps) auto
qed

lemma Itoa_inj: "Itoa m = Itoa n \<longleftrightarrow> m = n"
  using decVal_Itoa by metis

lemma parseUintLoop_bound:
  "parseUintLoop base m n s = Inr r \<Longrightarrow> n \<le> m \<Longrightarrow> r \<le> m"
  by (induction s arbitrary: n) (auto split: option.splits if_splits)

lemma ParseInt_bounds:
  assumes "ParseInt s base bitSize = Inr v"
  shows "- (2 ^ (bitSize - 1)) \<le> v \<and> v < 2 ^ (bitSize - 1)"
proof -
  let ?c = "2 ^ (bitSize - 1) :: nat"
  from assms obtain un where un: "v = (if prefix ''-'' s then - int un else int un)"
    and b: "prefix ''-'' s \<Longrightarrow> un \<le> ?c" "\<not> prefix ''-'' s \<Longrightarrow> un < ?c"
    by (auto simp: ParseInt_def Let_def split: if_splits sum.splits)
  have c: "int ?c = 2 ^ (bitSize - 1)" by simp
  show ?thesis
  proof (cases "prefix ''-'' s")
    case True
    then have "int un \<le> int ?c" using b(1) by simp
    moreover have "(0::int) < 2 ^ (bitSize - 1)" by simp
    moreover have "v = - int un" using True un by simp
    ultimately show ?thesis using c by linarith
  next
    case False
    then have "int un < int ?c" using b(2) by simp
    moreover have "v = int un" using False un by simp
    ultimately show ?thesis using c by linarith
  qed
qed

section \<open>Facts on paths\<close>

abbreviation normalElem :: "string \<Rightarrow> bool" where
  "normalElem e \<equiv> e \<noteq> [] \<and> e \<noteq> ''.'' \<and> e \<noteq> ''..''"

lemma cleanWalk_snoc:
  "normalElem e \<Longrightarrow> cleanWalk r st (es @ [e]) = cleanWalk r st es @ [e]"
  by (induction r st es rule: cleanWalk.induct) (auto split: list.splits)

lemma cleanWalk_elems:
  "e \<in> set (cleanWalk r st es) \<Longrightarrow> e \<in> set st \<or> (e \<in> set es \<and> e \<noteq> [] \<and> e \<noteq> ''.'')"
  by (induction r st es rule: cleanWalk.induct) (auto split: list.splits if_splits)

text \<open>Joining a relative path without \<open>..\<close> elements with one normal element.\<close>

lemma Join_elems:
  assumes e: "normalElem e" "slash \<notin> set e"
  shows "last (split_on slash (Join base e)) = e"
    and "\<not> IsAbs base \<Longrightarrow> \<not> IsAbs (Join base e)"
    and "x \<in> set (split_on slash (Join base e)) \<Longrightarrow> x = e \<or> x \<in> set (split_on slash base) \<or> x = []"
    and "Join base e \<noteq> []"
proof -
  let ?r = "prefix [slash] base"
  let ?els = "cleanWalk ?r [] (split_on slash base)"
  let ?b = "join_with [slash] (?els @ [e])"
  have ns: "slash \<notin> set x" if "x \<in> set (?els @ [e])" for x
    using that e cleanWalk_elems[of x ?r "[]" "split_on slash base"]
    by (auto dest: split_on_elem)
  have sp: "split_on slash ?b = ?els @ [e]"
    by (rule split_on_join) (use ns in auto)
  have bne: "?b \<noteq> []"
  proof
    assume "?b = []"
    with sp have "?els @ [e] = [[]]" by simp
    with e show False by (cases ?els) auto
  qed
  have Je: "Join base e = (if base = [] then e else if ?r then slash # ?b else ?b)"
  proof (cases "base = []")
    case True
    have nr: "\<not> prefix [slash] e" using e by (cases e) auto
    have "Clean e = e"
      using e nr by (simp add: Clean_def split_on_no_sep Let_def)
    with True e show ?thesis by (simp add: Join_def)
  next
    case False
    have r: "prefix [slash] (base @ slash # e) = ?r" using False by (cases base) auto
    have w: "cleanWalk ?r [] (split_on slash base @ [e]) = ?els @ [e]"
      by (rule cleanWalk_snoc) (use e in simp)
    have "split_on slash (base @ slash # e) = split_on slash base @ [e]"
      using e by (simp add: split_on_append_sep split_on_no_sep)
    with False r w bne show ?thesis
      by (cases "prefix [slash] base") (simp_all add: Join_def Clean_def Let_def)
  qed
  have spJ: "split_on slash (Join base e) =
      (if base = [] then [e] else if ?r then [] # ?els @ [e] else ?els @ [e])"
    using Je sp e by (auto simp: split_on_no_sep)
  show "last (split_on slash (Join base e)) = e" using spJ by auto
  show "x \<in> set (split_on slash (Join base e)) \<Longrightarrow> x = e \<or> x \<in> set (split_on slash base) \<or> x = []"
    using spJ cleanWalk_elems[of x ?r "[]" "split_on slash base"] by (auto split: if_splits)
  show "Join base e \<noteq> []" using Je bne e by auto
  assume na: "\<not> IsAbs base"
  show "\<not> IsAbs (Join base e)"
  proof (cases "base = []")
    case True
    with Je e show ?thesis by (cases e) (auto simp: IsAbs_def)
  next
    case False
    have "hd (?els @ [e]) \<noteq> []"
      using e cleanWalk_elems[of "hd (?els @ [e])" ?r "[]" "split_on slash base"]
      by (cases ?els) auto
    moreover have "IsAbs (Join base e) \<Longrightarrow> hd (split_on slash (Join base e)) = []"
      by (cases "Join base e") (auto simp: IsAbs_def)
    ultimately show ?thesis using False na spJ by (auto simp: IsAbs_def)
  qed
qed

lemma safePath_Join:
  assumes "safePath base" "normalElem e" "slash \<notin> set e"
  shows "safePath (Join base e)"
  using Join_elems[OF assms(2,3), where base = base] assms by (auto simp: safePath_def)

text \<open>A non-empty suffix of at least two bytes without a slash that does not start with two dots keeps a path safe.\<close>

lemma safePath_append:
  assumes s: "safePath p" and e: "slash \<notin> set suf" "suf = [] \<or> 2 < length suf"
  shows "safePath (p @ suf)"
proof -
  have "''..'' \<notin> set (split_on slash (p @ suf))"
  proof
    assume "''..'' \<in> set (split_on slash (p @ suf))"
    then have "''..'' \<in> set (butlast (split_on slash p)) \<or> ''..'' = last (split_on slash p) @ suf"
      using split_on_append_no_sep[OF e(1), of p] by auto
    moreover have "''..'' \<notin> set (split_on slash p)" using s by (simp add: safePath_def)
    ultimately have "''..'' = last (split_on slash p) @ suf"
      by (auto dest: in_set_butlastD)
    then have "length (last (split_on slash p) @ suf) = 2" by (metis length_Cons list.size(3) numeral_2_eq_2)
    then have "suf = []" using e(2) by auto
    with \<open>''..'' = last (split_on slash p) @ suf\<close> \<open>''..'' \<notin> set (split_on slash p)\<close>
    show False by (metis append_Nil2 last_in_set split_on_not_Nil)
  qed
  with s show ?thesis by (cases p) (auto simp: safePath_def IsAbs_def)
qed

end
