(* ===== verification/Encoding.thy ===== *)
theory Encoding
  imports GoStrings
begin

text \<open>
  The decoders of \<open>encoding/base64\<close> (\<open>StdEncoding\<close>) and \<open>encoding/hex\<close> that
  \<open>getContentBytes\<close>, \<open>decodePKCS12\<close> and \<open>encoding/pem\<close> call, with their encoders
  as the reference they invert. The base64 decoder ignores carriage returns and newlines
  anywhere, insists on padding and on nothing after it, and drops the unused low bits of the
  last symbol; \<open>CorruptInputError\<close> carries no offset here.
\<close>

section \<open>base64\<close>

definition b64Char :: "nat \<Rightarrow> char" where
  "b64Char n =
     (if n < 26 then char_of (n + 65) else if n < 52 then char_of (n + 71)
      else if n < 62 then char_of (n - 4) else if n = 62 then CHR ''+'' else CHR ''/'')"

definition b64Val :: "char \<Rightarrow> nat option" where
  "b64Val c =
     (let n = of_char c :: nat in
      if 65 \<le> n \<and> n \<le> 90 then Some (n - 65) else if 97 \<le> n \<and> n \<le> 122 then Some (n - 71)
      else if 48 \<le> n \<and> n \<le> 57 then Some (n + 4) else if n = 43 then Some 62
      else if n = 47 then Some 63 else None)"

fun b64Encode :: "bytes \<Rightarrow> string" where
  "b64Encode [] = []"
| "b64Encode [a] =
     [b64Char (of_char a div 4), b64Char (of_char a mod 4 * 16), CHR ''='', CHR ''='']"
| "b64Encode [a, b] =
     [b64Char (of_char a div 4), b64Char (of_char a mod 4 * 16 + of_char b div 16),
      b64Char (of_char b mod 16 * 4), CHR ''='']"
| "b64Encode (a # b # c # cs) =
     b64Char (of_char a div 4) # b64Char (of_char a mod 4 * 16 + of_char b div 16) #
     b64Char (of_char b mod 16 * 4 + of_char c div 64) # b64Char (of_char c mod 64) #
     b64Encode cs"

fun b64Quanta :: "string \<Rightarrow> bytes option" where
  "b64Quanta [] = Some []"
| "b64Quanta (a # b # c # d # rest) =
     (case (b64Val a, b64Val b) of
        (Some x, Some y) \<Rightarrow>
          (if c = CHR ''='' then
             (if d = CHR ''='' \<and> rest = [] then Some [char_of (x * 4 + y div 16)] else None)
           else (case b64Val c of
               None \<Rightarrow> None
             | Some z \<Rightarrow>
                 (if d = CHR ''='' then
                    (if rest = [] then
                       Some [char_of (x * 4 + y div 16), char_of (y mod 16 * 16 + z div 4)]
                     else None)
                  else (case b64Val d of
                      None \<Rightarrow> None
                    | Some w \<Rightarrow>
                        map_option
                          (\<lambda>bs. char_of (x * 4 + y div 16) # char_of (y mod 16 * 16 + z div 4) #
                                char_of (z mod 4 * 64 + w) # bs)
                          (b64Quanta rest)))))
      | _ \<Rightarrow> None)"
| "b64Quanta s = None"

definition isNewline :: "char \<Rightarrow> bool" where
  "isNewline c \<longleftrightarrow> c = CHR 0x0A \<or> c = CHR 0x0D"

definition base64_DecodeString :: "string \<Rightarrow> bytes result" where
  "base64_DecodeString s =
     (case b64Quanta (filter (\<lambda>c. \<not> isNewline c) s) of
        None \<Rightarrow> Inl CorruptInputError | Some bs \<Rightarrow> Inr bs)"

section \<open>hex\<close>

definition hexVal :: "char \<Rightarrow> nat option" where
  "hexVal c =
     (let n = of_char c :: nat in
      if 48 \<le> n \<and> n \<le> 57 then Some (n - 48) else if 97 \<le> n \<and> n \<le> 102 then Some (n - 87)
      else if 65 \<le> n \<and> n \<le> 70 then Some (n - 55) else None)"

definition hexChar :: "nat \<Rightarrow> char" where
  "hexChar n = (if n < 10 then char_of (n + 48) else char_of (n + 87))"

fun hexEncode :: "bytes \<Rightarrow> string" where
  "hexEncode [] = []"
| "hexEncode (b # bs) = hexChar (of_char b div 16) # hexChar (of_char b mod 16) # hexEncode bs"

fun hex_DecodeString :: "string \<Rightarrow> bytes result" where
  "hex_DecodeString [] = Inr []"
| "hex_DecodeString [p] = (case hexVal p of None \<Rightarrow> Inl (InvalidByteError p) | Some _ \<Rightarrow> Inl ErrLength)"
| "hex_DecodeString (p # q # rest) =
     (case hexVal p of
        None \<Rightarrow> Inl (InvalidByteError p)
      | Some a \<Rightarrow>
          (case hexVal q of
             None \<Rightarrow> Inl (InvalidByteError q)
           | Some b \<Rightarrow>
               (case hex_DecodeString rest of
                  Inl e \<Rightarrow> Inl e | Inr bs \<Rightarrow> Inr (char_of (a * 16 + b) # bs))))"

section \<open>Round trips\<close>

lemma of_char_div [simp]:
  "(of_char c :: nat) div 4 < 64" "(of_char c :: nat) div 16 < 16" "(of_char c :: nat) div 64 < 4"
  using nat_of_char_less_256[of c] by linarith+

lemma b64Val_b64Char [simp]: "n < 64 \<Longrightarrow> b64Val (b64Char n) = Some n"
  by (auto simp: b64Char_def b64Val_def Let_def)

lemma b64Char_not_special:
  "b64Char n \<noteq> CHR ''=''" "b64Char n \<noteq> CHR ''-''" "b64Char n \<noteq> CHR '':''"
  "b64Char n \<noteq> CHR 0x0A" "b64Char n \<noteq> CHR 0x0D" "b64Char n \<noteq> CHR '' ''" "b64Char n \<noteq> CHR 0x09"
proof -
  have r: "of_char (b64Char n) \<in> ({65..90} \<union> {97..122} \<union> {48..57} \<union> {43, 47} :: nat set)"
    by (auto simp: b64Char_def)
  then show "b64Char n \<noteq> CHR ''=''" "b64Char n \<noteq> CHR ''-''" "b64Char n \<noteq> CHR '':''"
    "b64Char n \<noteq> CHR 0x0A" "b64Char n \<noteq> CHR 0x0D" "b64Char n \<noteq> CHR '' ''" "b64Char n \<noteq> CHR 0x09"
    by auto
qed

lemma b64Encode_chars:
  "c \<in> set (b64Encode bs) \<Longrightarrow>
     c \<noteq> CHR ''-'' \<and> c \<noteq> CHR '':'' \<and> \<not> isNewline c \<and> c \<noteq> CHR '' '' \<and> c \<noteq> CHR 0x09"
  by (induction bs rule: b64Encode.induct) (auto simp: b64Char_not_special isNewline_def)

lemma filter_b64Encode [simp]: "filter (\<lambda>c. \<not> isNewline c) (b64Encode bs) = b64Encode bs"
  by (rule filter_True) (auto dest: b64Encode_chars)

text \<open>The 6-bit groups of an encoded byte, and the byte back from its groups.\<close>

lemma b64_groups:
  fixes a b c :: nat
  assumes "a < 256" "b < 256" "c < 256"
  shows "a mod 4 * 16 + b div 16 < 64" "b mod 16 * 4 + c div 64 < 64"
    and "a div 4 * 4 + (a mod 4 * 16 + b div 16) div 16 = a"
    and "(a mod 4 * 16 + b div 16) mod 16 * 16 + (b mod 16 * 4 + c div 64) div 4 = b"
    and "(b mod 16 * 4 + c div 64) mod 4 * 64 + c mod 64 = c"
proof -
  have b: "b div 16 < 16" and c: "c div 64 < 4" using assms by linarith+
  have a4: "a mod 4 \<le> 3" and b16: "b mod 16 \<le> 15" by simp_all
  show "a mod 4 * 16 + b div 16 < 64" using b a4 by linarith
  show "b mod 16 * 4 + c div 64 < 64" using c b16 by linarith
  have "(a mod 4 * 16 + b div 16) div 16 = a mod 4" "(a mod 4 * 16 + b div 16) mod 16 = b div 16"
    using b by simp_all
  moreover have "(b mod 16 * 4 + c div 64) div 4 = b mod 16" "(b mod 16 * 4 + c div 64) mod 4 = c div 64"
    using c by simp_all
  ultimately show "a div 4 * 4 + (a mod 4 * 16 + b div 16) div 16 = a"
    and "(a mod 4 * 16 + b div 16) mod 16 * 16 + (b mod 16 * 4 + c div 64) div 4 = b"
    and "(b mod 16 * 4 + c div 64) mod 4 * 64 + c mod 64 = c"
    by simp_all
qed

lemma b64Quanta_encode: "b64Quanta (b64Encode bs) = Some bs"
proof (induction bs rule: b64Encode.induct)
  case (2 a)
  note g = b64_groups[of "of_char a" 0 0, simplified]
  show ?case using g(1,2) by simp
next
  case (3 a b)
  note g = b64_groups[of "of_char a" "of_char b" 0, OF nat_of_char_less_256 nat_of_char_less_256]
  have "of_char b mod 16 * 4 < (64::nat)" by simp
  then show ?case using g by (simp add: b64Char_not_special)
next
  case (4 a b c cs)
  note g = b64_groups[of "of_char a" "of_char b" "of_char c",
      OF nat_of_char_less_256 nat_of_char_less_256 nat_of_char_less_256]
  show ?case using g 4 by (simp add: b64Char_not_special)
qed simp

lemma base64_roundtrip_newlines:
  "filter (\<lambda>c. \<not> isNewline c) s = b64Encode bs \<Longrightarrow> base64_DecodeString s = Inr bs"
  by (simp add: base64_DecodeString_def b64Quanta_encode)

lemma hexVal_hexChar [simp]: "n < 16 \<Longrightarrow> hexVal (hexChar n) = Some n"
  by (auto simp: hexVal_def hexChar_def Let_def)

lemma hex_roundtrip_aux: "hex_DecodeString (hexEncode bs) = Inr bs"
  by (induction bs) auto

lemma hex_DecodeString_length:
  "hex_DecodeString s = Inr bs \<Longrightarrow> length s = 2 * length bs"
  by (induction s arbitrary: bs rule: hex_DecodeString.induct) (auto split: option.splits sum.splits)

lemma b64Quanta_length:
  "b64Quanta s = Some bs \<Longrightarrow> 3 * length s \<le> 4 * length bs + 8 \<and> 4 * length bs \<le> 3 * length s"
proof (induction s arbitrary: bs rule: b64Quanta.induct)
  case (2 a b c d rest)
  then show ?case by (fastforce split: option.splits if_splits)
qed auto

end
