(* ===== verification/Pem.thy ===== *)
theory Pem
  imports Encoding "HOL-Library.Char_ord" "HOL-Library.List_Lexorder"
begin

text \<open>
  \<open>encoding/pem\<close>: blocks, \<open>EncodeToMemory\<close> and \<open>Decode\<close>. \<open>Decode\<close> looks for a BEGIN
  line, reads optional headers, an END line of the same type and the base64 text between
  them, and goes on behind a block that is not well formed. A Go map of headers is an
  association list with distinct keys. The locale \<open>block_codec\<close> is the contract the loops of
  \<open>fetchCertChains\<close> and \<open>splitCertAndKey\<close> rely on, and this codec is its instance.
\<close>

section \<open>The contract of a block codec\<close>

text \<open>
  A decoder takes one block off the front of its input and always makes progress, an encoded
  block in front of anything is what it finds, and it finds nothing in nothing. Inside: a
  loop that decodes until there is no more block, folding the blocks into an accumulator and
  leaving early on an error, computes that fold over the blocks of an encoded sequence.
\<close>

locale block_codec =
  fixes decode :: "'d list \<Rightarrow> ('b \<times> 'd list) option"
    and encode :: "'b \<Rightarrow> 'd list"
    and good :: "'b \<Rightarrow> bool"
  assumes decode_shorter: "decode s = Some (b, r) \<Longrightarrow> length r < length s"
    and decode_encode: "good b \<Longrightarrow> decode (encode b @ r) = Some (b, r)"
    and decode_Nil: "decode [] = None"
begin

lemma decode_loop:
  assumes loop: "\<And>s a. loop s a =
      (case decode s of
         None \<Rightarrow> fin a
       | Some (b, r) \<Rightarrow> (case step a b of Inl e \<Rightarrow> err e | Inr a' \<Rightarrow> loop r a'))"
    and good: "\<And>b. b \<in> set bs \<Longrightarrow> good b"
  shows "loop (concat (map encode bs)) a =
      (case foldE step a bs of Inl e \<Rightarrow> err e | Inr a' \<Rightarrow> fin a')"
  using good
proof (induction bs arbitrary: a)
  case Nil
  then show ?case by (simp add: loop decode_Nil)
next
  case (Cons b bs)
  have "decode (concat (map encode (b # bs))) = Some (b, concat (map encode bs))"
    using decode_encode[of b] Cons.prems by simp
  then show ?case using Cons by (subst loop) (auto split: sum.splits)
qed

lemma encode_not_Nil: "good b \<Longrightarrow> encode b \<noteq> []"
  using decode_encode[of b "[]"] decode_Nil by auto

lemma encode_concat_inj:
  assumes "\<And>b. b \<in> set bs \<union> set cs \<Longrightarrow> good b"
    and "concat (map encode bs) = concat (map encode cs)"
  shows "bs = cs"
  using assms
proof (induction bs arbitrary: cs)
  case Nil
  then show ?case using encode_not_Nil by (cases cs) auto
next
  case (Cons b bs)
  obtain c cs' where cs: "cs = c # cs'"
    using Cons.prems encode_not_Nil[of b] by (cases cs) auto
  have "decode (concat (map encode (b # bs))) = Some (b, concat (map encode bs))"
    using decode_encode[of b] Cons.prems(1) by simp
  moreover have "decode (concat (map encode cs)) = Some (c, concat (map encode cs'))"
    using decode_encode[of c] Cons.prems(1) cs by simp
  ultimately have "b = c" "concat (map encode bs) = concat (map encode cs')"
    using Cons.prems(2) by auto
  with Cons.IH[of cs'] Cons.prems(1) cs show ?case by auto
qed

end

section \<open>Blocks and encoding\<close>

record pemBlock =
  pemType :: string
  pemHeaders :: "(string \<times> string) list"
  pemBytes :: bytes

abbreviation nl :: char where
  "nl \<equiv> CHR 0x0A"

abbreviation dashes :: string where
  "dashes \<equiv> ''-----''"

definition pemStart :: string where
  "pemStart = nl # ''-----BEGIN ''"

definition pemEnd :: string where
  "pemEnd = nl # ''-----END ''"

function breakLines :: "string \<Rightarrow> string" where
  "breakLines s = (if s = [] then [] else take 64 s @ [nl] @ breakLines (drop 64 s))"
  by pat_completeness auto
termination
  by (relation "measure length") auto

declare breakLines.simps [simp del]

definition headerLine :: "string \<times> string \<Rightarrow> string" where
  "headerLine h = fst h @ '': '' @ snd h @ [nl]"

text \<open>Headers: \<open>Proc-Type\<close> first, the others sorted by key, and an empty line after them.\<close>

definition headerText :: "(string \<times> string) list \<Rightarrow> string" where
  "headerText hs =
     (if hs = [] then []
      else concat (map headerLine (filter (\<lambda>h. fst h = ''Proc-Type'') hs)) @
           concat (map headerLine (sort_key fst (filter (\<lambda>h. fst h \<noteq> ''Proc-Type'') hs))) @ [nl])"

text \<open>A header key with a colon cannot be encoded: the result is a nil slice.\<close>

definition EncodeToMemory :: "pemBlock \<Rightarrow> bytes" where
  "EncodeToMemory b =
     (if \<exists>h\<in>set (pemHeaders b). CHR '':'' \<in> set (fst h) then []
      else drop 1 pemStart @ pemType b @ dashes @ [nl] @ headerText (pemHeaders b) @
           breakLines (b64Encode (pemBytes b)) @ drop 1 pemEnd @ pemType b @ dashes @ [nl])"

section \<open>Decoding\<close>

text \<open>One line without its end of line and trailing blanks, and what follows it.\<close>

definition getLine :: "bytes \<Rightarrow> bytes \<times> bytes" where
  "getLine data =
     (let line = takeWhile (\<lambda>c. c \<noteq> nl) data;
          line' = (if nl \<in> set data \<and> line \<noteq> [] \<and> last line = CHR 0x0D then butlast line else line)
      in (rev (dropWhile (\<lambda>c. c = CHR '' '' \<or> c = CHR 0x09) (rev line')), drop (length line + 1) data))"

definition setHeader :: "string \<Rightarrow> string \<Rightarrow> (string \<times> string) list \<Rightarrow> (string \<times> string) list" where
  "setHeader k v hs = filter (\<lambda>h. fst h \<noteq> k) hs @ [(k, v)]"

lemma getLine_shorter: "data \<noteq> [] \<Longrightarrow> length (snd (getLine data)) < length data"
  by (cases data) (auto simp: getLine_def Let_def)

function readHeaders ::
  "(string \<times> string) list \<Rightarrow> bytes \<Rightarrow> ((string \<times> string) list \<times> bytes) option" where
  "readHeaders hs rest =
     (if rest = [] then None
      else (case Cut '':'' (fst (getLine rest)) of
          None \<Rightarrow> Some (hs, rest)
        | Some (k, v) \<Rightarrow> readHeaders (setHeader (TrimSpace k) (TrimSpace v) hs) (snd (getLine rest))))"
  by pat_completeness auto
termination
  by (relation "measure (\<lambda>(hs, rest). length rest)") (use getLine_shorter in auto)

declare readHeaders.simps [simp del]

datatype attempt = Stop | Retry bytes | Found pemBlock bytes

definition endOf :: "(string \<times> string) list \<Rightarrow> bytes \<Rightarrow> (nat \<times> nat) option" where
  "endOf hs rest =
     (if hs = [] \<and> prefix (drop 1 pemEnd) rest then Some (0, length pemEnd - 1)
      else (case Cut pemEnd rest of
          None \<Rightarrow> None | Some (a, b) \<Rightarrow> Some (length a, length a + length pemEnd)))"

text \<open>The text behind a BEGIN marker.\<close>

definition tryBlock :: "bytes \<Rightarrow> attempt" where
  "tryBlock data =
     (let typeLine = fst (getLine data); rest1 = snd (getLine data) in
      if \<not> suffix dashes typeLine then Retry rest1
      else let ty = take (length typeLine - 5) typeLine in
      (case readHeaders [] rest1 of
         None \<Rightarrow> Stop
       | Some (hs, rest2) \<Rightarrow>
           (case endOf hs rest2 of
              None \<Rightarrow> Retry rest2
            | Some (endIndex, endTrailerIndex) \<Rightarrow>
                let endTrailer = drop endTrailerIndex rest2; n = length ty + 5 in
                if length endTrailer < n then Retry rest2
                else if \<not> prefix ty (take n endTrailer) \<or> \<not> suffix dashes (take n endTrailer)
                then Retry rest2
                else if fst (getLine (drop n endTrailer)) \<noteq> [] then Retry rest2
                else (case base64_DecodeString
                        (filter (\<lambda>c. c \<noteq> CHR '' '' \<and> c \<noteq> CHR 0x09) (take endIndex rest2)) of
                    Inl _ \<Rightarrow> Retry rest2
                  | Inr bs \<Rightarrow>
                      Found \<lparr>pemType = ty, pemHeaders = hs, pemBytes = bs\<rparr>
                        (snd (getLine (drop (endIndex + length pemEnd - 1) rest2)))))))"

definition findBegin :: "bytes \<Rightarrow> bytes option" where
  "findBegin rest =
     (if prefix (drop 1 pemStart) rest then Some (drop (length pemStart - 1) rest)
      else map_option snd (Cut pemStart rest))"

lemma getLine_le: "length (snd (getLine data)) \<le> length data"
  by (simp add: getLine_def Let_def)

lemma readHeaders_le: "readHeaders hs rest = Some (hs', rest') \<Longrightarrow> length rest' \<le> length rest"
proof (induction hs rest rule: readHeaders.induct)
  case (1 hs rest)
  then show ?case
    using getLine_le[of rest]
    by (subst (asm) readHeaders.simps) (auto split: if_splits option.splits, fastforce)
qed

lemma findBegin_shorter:
  assumes "findBegin rest = Some r" shows "length r < length rest"
proof (cases "prefix (drop 1 pemStart) rest")
  case True
  with assms show ?thesis by (auto simp: findBegin_def pemStart_def prefix_def)
next
  case False
  with assms obtain a where "Cut pemStart rest = Some (a, r)"
    by (auto simp: findBegin_def)
  then have "rest = a @ pemStart @ r" by (rule Cut_Some)
  then show ?thesis by (simp add: pemStart_def)
qed

lemma tryBlock_le:
  "tryBlock d = Retry r \<Longrightarrow> length r \<le> length d"
  "tryBlock d = Found b r \<Longrightarrow> length r \<le> length d"
proof -
  have h: "length r2 \<le> length d" if "readHeaders [] (snd (getLine d)) = Some (hs, r2)" for hs r2
    using readHeaders_le[OF that] getLine_le[of d] by simp
  show "tryBlock d = Retry r \<Longrightarrow> length r \<le> length d"
    using h getLine_le[of d]
    by (auto simp: tryBlock_def Let_def split: if_splits option.splits prod.splits sum.splits)
  assume "tryBlock d = Found b r"
  then obtain hs r2 i where "readHeaders [] (snd (getLine d)) = Some (hs, r2)"
    and "r = snd (getLine (drop i r2))"
    by (auto simp: tryBlock_def Let_def split: if_splits option.splits prod.splits sum.splits)
  with h[of hs r2] getLine_le[of "drop i r2"] show "length r \<le> length d"
    by simp
qed

function pem_Decode :: "bytes \<Rightarrow> (pemBlock \<times> bytes) option" where
  "pem_Decode rest =
     (case findBegin rest of
        None \<Rightarrow> None
      | Some d \<Rightarrow>
          (case tryBlock d of
             Stop \<Rightarrow> None
           | Retry r \<Rightarrow> pem_Decode r
           | Found b r \<Rightarrow> Some (b, r)))"
  by pat_completeness auto
termination
proof (relation "measure length", goal_cases)
  case (2 rest d r)
  then show ?case using findBegin_shorter[of rest d] tryBlock_le(1)[of d r] by simp
qed simp

declare pem_Decode.simps [simp del]

section \<open>The codec keeps its contract\<close>

lemma pem_Decode_shorter:
  "pem_Decode s = Some (b, r) \<Longrightarrow> length r < length s"
proof (induction s rule: pem_Decode.induct)
  case (1 rest)
  from "1.prems" obtain d where d: "findBegin rest = Some d"
    by (subst (asm) pem_Decode.simps) (auto split: option.splits)
  note s = findBegin_shorter[OF d]
  show ?case
  proof (cases "tryBlock d")
    case (Retry r')
    with "1.prems" d have "pem_Decode r' = Some (b, r)"
      by (subst (asm) pem_Decode.simps) simp
    with "1.IH"[OF d Retry] s tryBlock_le(1)[OF Retry] show ?thesis by simp
  next
    case (Found b' r')
    with "1.prems" d have "r' = r" by (subst (asm) pem_Decode.simps) simp
    with s tryBlock_le(2)[OF Found] show ?thesis by simp
  qed (use "1.prems" d in \<open>subst (asm) pem_Decode.simps, simp\<close>)
qed

text \<open>A block the codec gives back: no headers, and a type that stays on its line.\<close>

definition goodBlock :: "pemBlock \<Rightarrow> bool" where
  "goodBlock b \<longleftrightarrow> pemHeaders b = [] \<and> nl \<notin> set (pemType b) \<and> CHR '':'' \<notin> set (pemType b)"

lemma breakLines_filter: "filter (\<lambda>c. \<not> isNewline c) (breakLines s) = filter (\<lambda>c. \<not> isNewline c) s"
proof (induction s rule: breakLines.induct)
  case (1 s)
  have "filter (\<lambda>c. \<not> isNewline c) (take 64 s) @ filter (\<lambda>c. \<not> isNewline c) (drop 64 s) =
      filter (\<lambda>c. \<not> isNewline c) s"
    by (metis append_take_drop_id filter_append)
  then show ?case using 1 by (subst breakLines.simps) (auto simp: isNewline_def)
qed

lemma breakLines_chars: "c \<in> set (breakLines s) \<Longrightarrow> c = nl \<or> c \<in> set s"
proof (induction s rule: breakLines.induct)
  case (1 s)
  then show ?case
    by (subst (asm) (2) breakLines.simps) (auto split: if_splits dest: in_set_takeD in_set_dropD)
qed

lemma breakLines_snoc: "s \<noteq> [] \<Longrightarrow> \<exists>t. breakLines s = t @ [nl]"
proof (induction s rule: breakLines.induct)
  case (1 s)
  show ?case
  proof (cases "drop 64 s = []")
    case True
    then show ?thesis using 1 by (subst breakLines.simps) (auto simp: breakLines.simps[of "[]"])
  next
    case False
    with 1 obtain t where "breakLines (drop 64 s) = t @ [nl]" by auto
    then show ?thesis using 1 by (subst breakLines.simps) auto
  qed
qed

lemma getLine_line:
  assumes "nl \<notin> set l" "l \<noteq> [] \<Longrightarrow> last l \<notin> {CHR 0x0D, CHR '' '', CHR 0x09}"
  shows "getLine (l @ nl # r) = (l, r)"
proof -
  have t: "takeWhile (\<lambda>c. c \<noteq> nl) (l @ nl # r) = l"
    using assms(1) by (simp add: takeWhile_append)
  have "rev (dropWhile (\<lambda>c. c = CHR '' '' \<or> c = CHR 0x09) (rev l)) = l"
    using assms(2) by (cases l rule: rev_cases) auto
  with t assms(2) show ?thesis by (auto simp: getLine_def Let_def)
qed

text \<open>The first line of the text behind a header-less BEGIN line has no colon.\<close>

lemma Cut_colon_None: "CHR '':'' \<notin> set l \<Longrightarrow> Cut '':'' l = None"
  by (auto simp: Cut_None_iff sublist_def)

lemma getLine_subset: "set (fst (getLine s)) \<subseteq> set (takeWhile (\<lambda>c. c \<noteq> nl) s)"
  by (auto simp: getLine_def Let_def dest!: set_dropWhileD dest: in_set_butlastD split: if_splits)

lemma readHeaders_none:
  assumes "s \<noteq> []" "CHR '':'' \<notin> set (takeWhile (\<lambda>c. c \<noteq> nl) s)"
  shows "readHeaders hs s = Some (hs, s)"
proof -
  have "CHR '':'' \<notin> set (fst (getLine s))" using getLine_subset assms(2) by blast
  then show ?thesis using assms(1) by (subst readHeaders.simps) (simp add: Cut_colon_None)
qed

text \<open>The body and trailer that \<open>EncodeToMemory\<close> writes behind the BEGIN line.\<close>

definition pemBody :: "pemBlock \<Rightarrow> bytes" where
  "pemBody b = breakLines (b64Encode (pemBytes b))"

lemma pemBody_chars:
  "c \<in> set (pemBody b) \<Longrightarrow> c \<noteq> CHR ''-'' \<and> c \<noteq> CHR '':'' \<and> c \<noteq> CHR '' '' \<and> c \<noteq> CHR 0x09"
  using breakLines_chars[of c "b64Encode (pemBytes b)"] b64Encode_chars[of c "pemBytes b"]
  by (auto simp: pemBody_def)

lemma pemBody_decode:
  assumes "pemBody b = t @ [nl] \<or> pemBody b = [] \<and> t = []"
  shows "base64_DecodeString (filter (\<lambda>c. c \<noteq> CHR '' '' \<and> c \<noteq> CHR 0x09) t) = Inr (pemBytes b)"
proof -
  have "set t \<subseteq> set (pemBody b)" using assms by auto
  then have f: "filter (\<lambda>c. c \<noteq> CHR '' '' \<and> c \<noteq> CHR 0x09) t = t"
    by (intro filter_True) (auto dest: pemBody_chars)
  have "filter (\<lambda>c. \<not> isNewline c) t = filter (\<lambda>c. \<not> isNewline c) (pemBody b)"
    using assms by (auto simp: isNewline_def)
  then have "filter (\<lambda>c. \<not> isNewline c) t = b64Encode (pemBytes b)"
    by (simp add: pemBody_def breakLines_filter)
  with f show ?thesis by (simp add: base64_roundtrip_newlines)
qed

lemma endOf_body:
  assumes "pemBody b = t @ [nl] \<or> pemBody b = [] \<and> t = []"
  obtains i j where "endOf [] (pemBody b @ drop 1 pemEnd @ r) = Some (i, j)"
    and "take i (pemBody b @ drop 1 pemEnd @ r) = t"
    and "drop j (pemBody b @ drop 1 pemEnd @ r) = r"
    and "drop (i + length pemEnd - 1) (pemBody b @ drop 1 pemEnd @ r) = (if pemBody b = [] then r else CHR '' '' # r)"
proof (cases "pemBody b = []")
  case True
  then show ?thesis using assms that[of 0 "length pemEnd - 1"]
    by (auto simp: endOf_def pemEnd_def)
next
  case False
  with assms have t: "pemBody b = t @ [nl]" by auto
  have nd: "CHR ''-'' \<notin> set t" "hd (pemBody b) \<noteq> CHR ''-''"
    using pemBody_chars[of "CHR ''-''" b] t False hd_in_set[of "pemBody b"] by force+
  have np: "\<not> prefix (drop 1 pemEnd) (pemBody b @ drop 1 pemEnd @ r)"
    using nd(2) False by (cases "pemBody b") (auto simp: pemEnd_def)
  have s: "pemBody b @ drop 1 pemEnd @ r = t @ nl # CHR ''-'' # ''----END '' @ r"
    by (simp add: t pemEnd_def)
  have pe: "pemEnd = nl # CHR ''-'' # ''----END ''" by (simp add: pemEnd_def)
  have cut: "Cut pemEnd (pemBody b @ drop 1 pemEnd @ r) = Some (t, r)"
    unfolding s unfolding pe by (rule Cut_first[OF nd(1)]) simp
  have e: "endOf [] (pemBody b @ drop 1 pemEnd @ r) = Some (length t, length t + length pemEnd)"
    unfolding endOf_def cut using np by simp
  show ?thesis
    by (rule that[OF e]) (simp_all add: False t pemEnd_def)
qed

lemma tryBlock_found:
  assumes l: "getLine data = (ty @ dashes, s)" and h: "readHeaders [] s = Some ([], s)"
    and ij: "endOf [] s = Some (i, j)" "drop j s = ty @ dashes @ nl # r"
    and d: "base64_DecodeString (filter (\<lambda>c. c \<noteq> CHR '' '' \<and> c \<noteq> CHR 0x09) (take i s)) = Inr bs"
    and fin: "snd (getLine (drop (i + length pemEnd - 1) s)) = r'"
  shows "tryBlock data = Found \<lparr>pemType = ty, pemHeaders = [], pemBytes = bs\<rparr> r'"
proof -
  have l0: "fst (getLine (nl # r)) = []" using getLine_line[of "[]" r] by simp
  have suf: "suffix dashes (ty @ dashes)" by (rule suffixI) simp
  have "length (ty @ dashes) - 5 = length ty" by simp
  then have t: "take (length (ty @ dashes) - 5) (ty @ dashes) = ty"
    by (simp only: append_eq_conv_conj) simp
  have n: "take (length ty + 5) (ty @ dashes @ nl # r) = ty @ dashes"
    "drop (length ty + 5) (ty @ dashes @ nl # r) = nl # r"
    "length ty + 5 \<le> length (ty @ dashes @ nl # r)"
    by simp_all
  have nlt: "\<not> length (ty @ dashes @ nl # r) < length ty + 5" by simp
  show ?thesis
    unfolding tryBlock_def l Let_def fst_conv snd_conv t h option.case prod.case ij n(1,2)
    using d suf nlt l0 fin by simp
qed

lemma tryBlock_encoded:
  assumes g: "goodBlock b"
  shows "tryBlock (pemType b @ dashes @ nl # pemBody b @ drop 1 pemEnd @ pemType b @ dashes @ nl # r)
      = Found b r"
proof -
  let ?ty = "pemType b" and ?rest = "pemType b @ dashes @ nl # r"
  let ?s = "pemBody b @ drop 1 pemEnd @ ?rest"
  have ty: "nl \<notin> set ?ty" "CHR '':'' \<notin> set ?ty" and hs: "pemHeaders b = []"
    using g by (auto simp: goodBlock_def)
  have l: "getLine (?ty @ dashes @ nl # q) = (?ty @ dashes, q)" for q
    using getLine_line[of "?ty @ dashes" q] ty by simp
  have lsp: "snd (getLine (CHR '' '' # ?rest)) = r"
    using getLine_line[of "CHR '' '' # ?ty @ dashes" r] ty by simp
  have col: "CHR '':'' \<notin> set (takeWhile (\<lambda>c. c \<noteq> nl) ?s)"
  proof
    assume "CHR '':'' \<in> set (takeWhile (\<lambda>c. c \<noteq> nl) ?s)"
    moreover have "takeWhile (\<lambda>c. c \<noteq> nl) ?s =
        (if nl \<in> set (pemBody b) then takeWhile (\<lambda>c. c \<noteq> nl) (pemBody b)
         else pemBody b @ drop 1 pemEnd @ ?ty @ dashes)"
      using ty by (auto simp: takeWhile_append pemEnd_def)
    ultimately show False
      using ty pemBody_chars[of "CHR '':''" b]
      by (auto simp: pemEnd_def split: if_splits dest: set_takeWhileD)
  qed
  have h: "readHeaders [] ?s = Some ([], ?s)" by (rule readHeaders_none[OF _ col]) simp
  obtain t where t: "pemBody b = t @ [nl] \<or> pemBody b = [] \<and> t = []"
    using breakLines_snoc[of "b64Encode (pemBytes b)"]
    by (cases "b64Encode (pemBytes b) = []") (auto simp: pemBody_def breakLines.simps[of "[]"])
  obtain i j where ij: "endOf [] ?s = Some (i, j)" "take i ?s = t" "drop j ?s = ?rest"
    "drop (i + length pemEnd - 1) ?s = (if pemBody b = [] then ?rest else CHR '' '' # ?rest)"
    by (rule endOf_body[OF t])
  have fin: "snd (getLine (drop (i + length pemEnd - 1) ?s)) = r"
    unfolding ij(4) by (cases "pemBody b = []") (simp_all only: if_True if_False lsp l snd_conv simp_thms)
  have "tryBlock (?ty @ dashes @ nl # ?s) =
      Found \<lparr>pemType = ?ty, pemHeaders = [], pemBytes = pemBytes b\<rparr> r"
    by (rule tryBlock_found[OF l h ij(1,3) _ fin]) (simp only: ij(2) pemBody_decode[OF t])
  then show ?thesis using hs by (cases b) simp
qed

lemma pem_Decode_encode:
  assumes "goodBlock b"
  shows "pem_Decode (EncodeToMemory b @ r) = Some (b, r)"
proof -
  have hs: "pemHeaders b = []" using assms by (simp add: goodBlock_def)
  have e: "EncodeToMemory b @ r =
      drop 1 pemStart @ pemType b @ dashes @ nl # pemBody b @ drop 1 pemEnd @ pemType b @ dashes @ nl # r"
    using hs by (simp add: EncodeToMemory_def headerText_def pemBody_def)
  have "findBegin (EncodeToMemory b @ r) =
      Some (pemType b @ dashes @ nl # pemBody b @ drop 1 pemEnd @ pemType b @ dashes @ nl # r)"
    unfolding e by (simp add: findBegin_def pemStart_def)
  then show ?thesis using tryBlock_encoded[OF assms] by (subst pem_Decode.simps) simp
qed

lemma pem_Decode_Nil: "pem_Decode [] = None"
  by (subst pem_Decode.simps) (simp add: findBegin_def pemStart_def)

interpretation pem: block_codec pem_Decode EncodeToMemory goodBlock
  by unfold_locales (auto intro: pem_Decode_shorter pem_Decode_encode pem_Decode_Nil)

end
