(* ===== verification/KeyVaultTypes.thy ===== *)
theory KeyVaultTypes
  imports GoStrings
begin

text \<open>
  \<open>pkg/provider/types\<close>: the data of a SecretProviderClass as the provider sees it
  (\<open>types.go\<close>) and the accessors that read it (\<open>parameters.go\<close>). A parameter map is a
  map from strings to strings; reading a missing key gives Go's zero value, the empty string.
  \<open>int32\<close> and \<open>os.FileMode\<close> are 32-bit words, read as signed where the code compares them
  as signed. A time is its number of nanoseconds since the Unix epoch.
\<close>

section \<open>types.go\<close>

type_synonym int32 = "32 word"
type_synonym params = "string \<rightharpoonup> string"

definition VaultObjectTypeSecret :: string where
  "VaultObjectTypeSecret = ''secret''"

definition VaultObjectTypeKey :: string where
  "VaultObjectTypeKey = ''key''"

definition VaultObjectTypeCertificate :: string where
  "VaultObjectTypeCertificate = ''cert''"

definition CertTypePem :: string where
  "CertTypePem = ''application/x-pem-file''"

definition CertTypePfx :: string where
  "CertTypePfx = ''application/x-pkcs12''"

definition CertificateType :: string where
  "CertificateType = ''CERTIFICATE''"

definition ObjectFormatPEM :: string where
  "ObjectFormatPEM = ''pem''"

definition ObjectFormatPFX :: string where
  "ObjectFormatPFX = ''pfx''"

definition ObjectEncodingHex :: string where
  "ObjectEncodingHex = ''hex''"

definition ObjectEncodingBase64 :: string where
  "ObjectEncodingBase64 = ''base64''"

definition ObjectEncodingUtf8 :: string where
  "ObjectEncodingUtf8 = ''utf-8''"

definition PodIdentityNMIPort :: string where
  "PodIdentityNMIPort = ''2579''"

lemmas const_defs =
  VaultObjectTypeSecret_def VaultObjectTypeKey_def VaultObjectTypeCertificate_def
  CertTypePem_def CertTypePfx_def CertificateType_def ObjectFormatPEM_def ObjectFormatPFX_def
  ObjectEncodingHex_def ObjectEncodingBase64_def ObjectEncodingUtf8_def

definition CSIAttributePodName :: string where
  "CSIAttributePodName = ''csi.storage.k8s.io/pod.name''"

definition CSIAttributePodNamespace :: string where
  "CSIAttributePodNamespace = ''csi.storage.k8s.io/pod.namespace''"

definition CSIAttributeServiceAccountTokens :: string where
  "CSIAttributeServiceAccountTokens = ''csi.storage.k8s.io/serviceAccount.tokens''"

definition KeyVaultNameParameter :: string where
  "KeyVaultNameParameter = ''keyvaultName''"

definition CloudNameParameter :: string where
  "CloudNameParameter = ''cloudName''"

definition UsePodIdentityParameter :: string where
  "UsePodIdentityParameter = ''usePodIdentity''"

definition UseVMManagedIdentityParameter :: string where
  "UseVMManagedIdentityParameter = ''useVMManagedIdentity''"

definition UserAssignedIdentityIDParameter :: string where
  "UserAssignedIdentityIDParameter = ''userAssignedIdentityID''"

definition TenantIDParameter :: string where
  "TenantIDParameter = ''tenantId''"

definition CloudEnvFileNameParameter :: string where
  "CloudEnvFileNameParameter = ''cloudEnvFileName''"

definition ClientIDParameter :: string where
  "ClientIDParameter = ''clientID''"

definition UseAzureTokenProxyParameter :: string where
  "UseAzureTokenProxyParameter = ''useAzureTokenProxy''"

definition ObjectsParameter :: string where
  "ObjectsParameter = ''objects''"

lemmas param_name_defs =
  CSIAttributePodName_def CSIAttributePodNamespace_def CSIAttributeServiceAccountTokens_def
  KeyVaultNameParameter_def CloudNameParameter_def UsePodIdentityParameter_def
  UseVMManagedIdentityParameter_def UserAssignedIdentityIDParameter_def TenantIDParameter_def
  CloudEnvFileNameParameter_def ClientIDParameter_def UseAzureTokenProxyParameter_def
  ObjectsParameter_def

record keyVaultObject =
  ObjectName :: string
  ObjectAlias :: string
  ObjectVersion :: string
  ObjectVersionHistory :: int32
  ObjectType :: string
  ObjectFormat :: string
  ObjectEncoding :: string
  FilePermission :: string

record secretFile =
  sfContent :: bytes
  sfPath :: string
  sfFileMode :: int32
  sfUID :: string
  sfVersion :: string

record keyVaultObjectVersion =
  kvVersion :: string
  kvCreated :: int

type_synonym keyVaultObjectVersionList = "keyVaultObjectVersion list"

text \<open>\<open>sort.Interface\<close> of a version list: newer versions come first.\<close>

definition Len :: "keyVaultObjectVersionList \<Rightarrow> nat" where
  "Len vs = length vs"

definition Less :: "keyVaultObjectVersionList \<Rightarrow> nat \<Rightarrow> nat \<Rightarrow> bool" where
  "Less vs i j \<longleftrightarrow> kvCreated (vs ! i) > kvCreated (vs ! j)"

definition Swap :: "keyVaultObjectVersionList \<Rightarrow> nat \<Rightarrow> nat \<Rightarrow> keyVaultObjectVersionList" where
  "Swap vs i j = vs[i := vs ! j, j := vs ! i]"

section \<open>parameters.go\<close>

definition param :: "params \<Rightarrow> string \<Rightarrow> string" where
  "param m k = (case m k of None \<Rightarrow> [] | Some v \<Rightarrow> v)"

definition GetKeyVaultName :: "params \<Rightarrow> string" where
  "GetKeyVaultName m = TrimSpace (param m KeyVaultNameParameter)"

definition GetCloudName :: "params \<Rightarrow> string" where
  "GetCloudName m = TrimSpace (param m CloudNameParameter)"

definition GetUsePodIdentity :: "params \<Rightarrow> bool result" where
  "GetUsePodIdentity m =
     (let str = TrimSpace (param m UsePodIdentityParameter)
      in if str = [] then Inr False else ParseBool str)"

definition GetUseVMManagedIdentity :: "params \<Rightarrow> bool result" where
  "GetUseVMManagedIdentity m =
     (let str = TrimSpace (param m UseVMManagedIdentityParameter)
      in if str = [] then Inr False else ParseBool str)"

definition GetUserAssignedIdentityID :: "params \<Rightarrow> string" where
  "GetUserAssignedIdentityID m = TrimSpace (param m UserAssignedIdentityIDParameter)"

definition GetTenantID :: "params \<Rightarrow> string" where
  "GetTenantID m =
     (let tenantID = TrimSpace (param m ''tenantID'')
      in if tenantID \<noteq> [] then tenantID else TrimSpace (param m TenantIDParameter))"

definition GetCloudEnvFileName :: "params \<Rightarrow> string" where
  "GetCloudEnvFileName m = TrimSpace (param m CloudEnvFileNameParameter)"

definition GetPodName :: "params \<Rightarrow> string" where
  "GetPodName m = TrimSpace (param m CSIAttributePodName)"

definition GetPodNamespace :: "params \<Rightarrow> string" where
  "GetPodNamespace m = TrimSpace (param m CSIAttributePodNamespace)"

definition GetClientID :: "params \<Rightarrow> string" where
  "GetClientID m = TrimSpace (param m ClientIDParameter)"

definition GetUseAzureTokenProxy :: "params \<Rightarrow> bool result" where
  "GetUseAzureTokenProxy m =
     (let str = TrimSpace (param m UseAzureTokenProxyParameter)
      in if str = [] then Inr False else ParseBool str)"

definition GetServiceAccountTokens :: "params \<Rightarrow> string" where
  "GetServiceAccountTokens m = TrimSpace (param m CSIAttributeServiceAccountTokens)"

definition GetObjects :: "params \<Rightarrow> string" where
  "GetObjects m = TrimSpace (param m ObjectsParameter)"

text \<open>\<open>yaml.Unmarshal\<close> into a \<open>StringArray\<close> is a parameter.\<close>

definition GetObjectsArray :: "(string \<Rightarrow> string list result) \<Rightarrow> string \<Rightarrow> string list result" where
  "GetObjectsArray unmarshal objects = unmarshal objects"

definition IsSyncingSingleVersion :: "keyVaultObject \<Rightarrow> bool" where
  "IsSyncingSingleVersion kv \<longleftrightarrow> sint (ObjectVersionHistory kv) \<le> 1"

definition GetObjectUID :: "keyVaultObject \<Rightarrow> string" where
  "GetObjectUID kv =
     (if IsSyncingSingleVersion kv then ObjectType kv @ ''/'' @ ObjectName kv
      else let parts = split_on slash (ObjectAlias kv)
           in ObjectType kv @ ''/'' @ ObjectName kv @ ''/'' @ last parts)"

definition GetFileName :: "keyVaultObject \<Rightarrow> string" where
  "GetFileName kv = (if ObjectAlias kv \<noteq> [] then ObjectAlias kv else ObjectName kv)"

text \<open>The result is the value and the error, as in Go: the caller may drop the error.\<close>

definition GetFilePermission :: "keyVaultObject \<Rightarrow> int32 \<Rightarrow> int32 \<times> go_error option" where
  "GetFilePermission kv defaultFilePermission =
     (if FilePermission kv = [] then (defaultFilePermission, None)
      else (case ParseInt (FilePermission kv) 8 32 of
          Inl e \<Rightarrow> (0, Some (wrapf ''file permission must be a valid octal number: %w'' [] e))
        | Inr permission \<Rightarrow> (word_of_int permission, None)))"

section \<open>Facts\<close>

text \<open>A mode written in octal, as the documentation's examples do.\<close>

fun octal :: "nat \<Rightarrow> string" where
  "octal n = (if n < 8 then [char_of (48 + n)] else octal (n div 8) @ [char_of (48 + n mod 8)])"

declare octal.simps [simp del]

lemma parseUintLoop_append:
  "parseUintLoop base m n (xs @ ys) =
     (case parseUintLoop base m n xs of Inl e \<Rightarrow> Inl e | Inr k \<Rightarrow> parseUintLoop base m k ys)"
  by (induction xs arbitrary: n) (auto split: option.splits)

lemma digitVal_octal: "d < 8 \<Longrightarrow> digitVal (char_of (48 + d)) = Some d"
  by (simp add: digitVal_def Let_def)

lemma octal_not_Nil [simp]: "octal n \<noteq> []"
  by (subst octal.simps) auto

lemma octal_hd: "48 \<le> (of_char (hd (octal n)) :: nat)"
proof (induction n rule: octal.induct)
  case (1 n)
  then show ?case by (cases "n < 8"; subst octal.simps) auto
qed

lemma parse_octal: "n \<le> m \<Longrightarrow> parseUintLoop 8 m 0 (octal n) = Inr n"
proof (induction n rule: octal.induct)
  case (1 n)
  show ?case
  proof (cases "n < 8")
    case True
    then show ?thesis using 1 by (subst octal.simps) (simp add: digitVal_octal)
  next
    case False
    have d: "n mod 8 < 8" by simp
    have "parseUintLoop 8 m 0 (octal (n div 8)) = Inr (n div 8)"
      using 1 False by simp
    then show ?thesis
      using False 1(2) by (subst octal.simps) (simp add: parseUintLoop_append digitVal_octal[OF d])
  qed
qed

lemma octal_unsigned: "\<not> prefix ''-'' (octal n)" "\<not> prefix ''+'' (octal n)"
  using octal_hd[of n] by (cases "octal n"; auto)+

lemma ParseInt_octal: "n < 2 ^ 31 \<Longrightarrow> ParseInt (octal n) 8 32 = Inr (int n)"
  by (simp add: ParseInt_def Let_def octal_unsigned parse_octal)

lemma GetObjectUID_parts:
  "\<not> IsSyncingSingleVersion kv \<Longrightarrow> last (split_on slash (ObjectAlias kv)) = v \<Longrightarrow>
   GetObjectUID kv = ObjectType kv @ ''/'' @ ObjectName kv @ ''/'' @ v"
  by (simp add: GetObjectUID_def)

lemma TrimSpace_getters [simp]:
  "TrimSpace (GetKeyVaultName m) = GetKeyVaultName m"
  "TrimSpace (GetTenantID m) = GetTenantID m"
  "TrimSpace (GetObjects m) = GetObjects m"
  by (simp_all add: GetKeyVaultName_def GetTenantID_def GetObjects_def Let_def)

section \<open>Properties\<close>

text \<open>
  A file permission written in octal is read as the number it denotes, up to 31 bits;
  an absent one is the default; and whenever an error is reported the mode is 0.
\<close>

lemma GetFilePermission_octal:
  "(FilePermission kv = octal n \<and> n < 2 ^ 31 \<longrightarrow> GetFilePermission kv d = (of_nat n, None)) \<and>
   (FilePermission kv = [] \<longrightarrow> GetFilePermission kv d = (d, None)) \<and>
   (\<forall>m e. GetFilePermission kv d = (m, Some e) \<longrightarrow> m = 0)"
  by (auto simp: GetFilePermission_def ParseInt_octal split: sum.splits)

lemma GetFilePermission_octal_witness:
  "GetFilePermission \<lparr>ObjectName = [], ObjectAlias = [], ObjectVersion = [], ObjectVersionHistory = 0,
     ObjectType = [], ObjectFormat = [], ObjectEncoding = [], FilePermission = ''644''\<rparr> 0 = (420, None)"
proof -
  have "octal 420 = ''644''" by code_simp
  then show ?thesis using GetFilePermission_octal[of _ 420 0] by auto
qed

end
