(* ===== verification/CertChain.thy ===== *)
theory CertChain
  imports Pem KeyVaultTypes
begin

text \<open>
  \<open>fetchCertChains\<close> of \<open>provider.go\<close>: certificates in any order are linked by authority
  and subject key identifiers and written leaf first. The nodes are an array; a pointer to a
  node is its index. \<open>x509.ParseCertificate\<close> (ASN.1) is a parameter, of which the code reads
  the two key identifiers (nil or a byte slice) and the raw bytes. A chain through the parent
  pointers is a \<open>plist\<close>, a list along a next function.
\<close>

section \<open>The code\<close>

record certificate =
  AuthorityKeyId :: "bytes option"
  SubjectKeyId :: "bytes option"
  Raw :: bytes

record node =
  nodeCert :: certificate
  nodeParent :: "nat option"
  nodeIsParent :: bool

text \<open>\<open>string(b)\<close> of a byte slice that may be nil.\<close>

definition sliceString :: "bytes option \<Rightarrow> string" where
  "sliceString b = (case b of None \<Rightarrow> [] | Some s \<Rightarrow> s)"

type_synonym cert_parser = "bytes \<Rightarrow> certificate option result"

definition newNode :: "certificate \<Rightarrow> node" where
  "newNode c = \<lparr>nodeCert = c, nodeParent = None, nodeIsParent = False\<rparr>"

definition certOf :: "certificate option \<Rightarrow> certificate result" where
  "certOf co = (case co of None \<Rightarrow> Inl (Errorf ''certificate is nil'' []) | Some c \<Rightarrow> Inr c)"

function parseNodes :: "cert_parser \<Rightarrow> bytes \<Rightarrow> node list \<Rightarrow> node list result" where
  "parseNodes parse currData nodes =
     (case pem_Decode currData of
        None \<Rightarrow> Inr nodes
      | Some (block, rest) \<Rightarrow>
          (case rbind (parse (pemBytes block)) certOf of
             Inl e \<Rightarrow> Inl e
           | Inr c \<Rightarrow> parseNodes parse rest (nodes @ [newNode c])))"
  by pat_completeness auto
termination
  by (relation "measure (\<lambda>(parse, d, nodes). length d)") (auto dest: pem_Decode_shorter)

declare parseNodes.simps [simp del]

fun linkInner :: "nat \<Rightarrow> nat list \<Rightarrow> node list \<Rightarrow> node list" where
  "linkInner i [] nodes = nodes"
| "linkInner i (j # js) nodes =
     (if i = j then linkInner i js nodes
      else if AuthorityKeyId (nodeCert (nodes ! i)) = None \<and> SubjectKeyId (nodeCert (nodes ! j)) = None
      then linkInner i js nodes
      else if sliceString (AuthorityKeyId (nodeCert (nodes ! i))) =
              sliceString (SubjectKeyId (nodeCert (nodes ! j)))
      then let nodes1 = nodes[j := (nodes ! j)\<lparr>nodeIsParent := True\<rparr>]
           in nodes1[i := (nodes1 ! i)\<lparr>nodeParent := Some j\<rparr>]
      else linkInner i js nodes)"

definition linkNodes :: "node list \<Rightarrow> node list" where
  "linkNodes nodes = foldl (\<lambda>ns i. linkInner i [0..<length ns] ns) nodes [0..<length nodes]"

definition findLeaf :: "node list \<Rightarrow> nat option" where
  "findLeaf nodes = find (\<lambda>i. \<not> nodeIsParent (nodes ! i)) [0..<length nodes]"

definition errCycle :: go_error where
  "errCycle = Errorf ''constructing chain resulted in cycle'' []"

function chainWalk :: "node list \<Rightarrow> nat \<Rightarrow> nat option \<Rightarrow> certificate list \<Rightarrow> certificate list result" where
  "chainWalk nodes processed None chain = Inr chain"
| "chainWalk nodes processed (Some leaf) chain =
     (if length nodes < processed + 1 then Inl errCycle
      else chainWalk nodes (processed + 1) (nodeParent (nodes ! leaf)) (chain @ [nodeCert (nodes ! leaf)]))"
  by pat_completeness auto
termination
  by (relation "measure (\<lambda>(nodes, p, l, c). Suc (length nodes) - p)") auto

definition certBlock :: "bytes \<Rightarrow> pemBlock" where
  "certBlock raw = \<lparr>pemType = CertificateType, pemHeaders = [], pemBytes = raw\<rparr>"

definition encodeCerts :: "certificate list \<Rightarrow> bytes" where
  "encodeCerts cs = concat (map (\<lambda>c. EncodeToMemory (certBlock (Raw c))) cs)"

definition fetchCertChains :: "cert_parser \<Rightarrow> bytes \<Rightarrow> bytes result" where
  "fetchCertChains parse data =
     rbind (parseNodes parse data []) (\<lambda>nodes0.
       let nodes = linkNodes nodes0 in
       (case findLeaf nodes of
          None \<Rightarrow> Inl (Errorf ''no leaf found'' [])
        | Some leaf \<Rightarrow>
            rbind (chainWalk nodes 0 (Some leaf) []) (\<lambda>newCertChain.
              if length nodes \<noteq> length newCertChain then Inr data
              else Inr (encodeCerts newCertChain))))"

section \<open>Specification\<close>

text \<open>\<open>p\<close> was used to sign \<open>c\<close>, as far as the key identifiers tell.\<close>

definition signedBy :: "certificate \<Rightarrow> certificate \<Rightarrow> bool" where
  "signedBy c p \<longleftrightarrow>
     \<not> (AuthorityKeyId c = None \<and> SubjectKeyId p = None) \<and>
     sliceString (AuthorityKeyId c) = sliceString (SubjectKeyId p)"

text \<open>The parent the code chooses: the first other certificate that signed it.\<close>

definition parentOf :: "certificate list \<Rightarrow> nat \<Rightarrow> nat option" where
  "parentOf cs i = find (\<lambda>j. j \<noteq> i \<and> signedBy (cs ! i) (cs ! j)) [0..<length cs]"

text \<open>Leaf first, every certificate signed by the next one and by no other.\<close>

definition properChain :: "certificate list \<Rightarrow> bool" where
  "properChain chain \<longleftrightarrow> chain \<noteq> [] \<and> distinct chain \<and>
     (\<forall>i<length chain. \<forall>j<length chain.
        i \<noteq> j \<longrightarrow> (signedBy (chain ! i) (chain ! j) \<longleftrightarrow> j = Suc i))"

text \<open>A chain in which each certificate is followed by one that signed it.\<close>

definition linked :: "certificate list \<Rightarrow> bool" where
  "linked chain \<longleftrightarrow> (\<forall>k. Suc k < length chain \<longrightarrow> signedBy (chain ! k) (chain ! Suc k))"

text \<open>The PEM blocks of a text, and the certificate of each.\<close>

function pemBlocks :: "bytes \<Rightarrow> pemBlock list" where
  "pemBlocks data = (case pem_Decode data of None \<Rightarrow> [] | Some (block, rest) \<Rightarrow> block # pemBlocks rest)"
  by pat_completeness auto
termination
  by (relation "measure length") (auto dest: pem_Decode_shorter)

declare pemBlocks.simps [simp del]

definition readAs :: "cert_parser \<Rightarrow> pemBlock list \<Rightarrow> certificate list \<Rightarrow> bool" where
  "readAs parse blocks cs \<longleftrightarrow> list_all2 (\<lambda>b c. parse (pemBytes b) = Inr (Some c)) blocks cs"

section \<open>Linking\<close>

lemma linkInner_find:
  "linkInner i js ns =
     (case find (\<lambda>j. j \<noteq> i \<and> signedBy (nodeCert (ns ! i)) (nodeCert (ns ! j))) js of
        None \<Rightarrow> ns
      | Some j \<Rightarrow>
          let ns1 = ns[j := (ns ! j)\<lparr>nodeIsParent := True\<rparr>]
          in ns1[i := (ns1 ! i)\<lparr>nodeParent := Some j\<rparr>])"
  by (induction js) (auto simp: signedBy_def Let_def)

lemma parentOf_SomeD:
  assumes "parentOf cs i = Some j"
  shows "j < length cs" "j \<noteq> i" "signedBy (cs ! i) (cs ! j)"
  using assms by (auto simp: parentOf_def find_Some_iff)

text \<open>The nodes after the outer loop has handled the first \<open>k\<close> of them.\<close>

definition linkedUpto :: "certificate list \<Rightarrow> nat \<Rightarrow> node list" where
  "linkedUpto cs k =
     map (\<lambda>j. \<lparr>nodeCert = cs ! j, nodeParent = (if j < k then parentOf cs j else None),
               nodeIsParent = (\<exists>i<k. parentOf cs i = Some j)\<rparr>) [0..<length cs]"

lemma linkedUpto_nth [simp]:
  "j < length cs \<Longrightarrow> linkedUpto cs k ! j =
     \<lparr>nodeCert = cs ! j, nodeParent = (if j < k then parentOf cs j else None),
      nodeIsParent = (\<exists>i<k. parentOf cs i = Some j)\<rparr>"
  by (simp add: linkedUpto_def)

lemma length_linkedUpto [simp]: "length (linkedUpto cs k) = length cs"
  by (simp add: linkedUpto_def)

lemma linkInner_linkedUpto:
  assumes k: "k < length cs"
  shows "linkInner k [0..<length cs] (linkedUpto cs k) = linkedUpto cs (Suc k)"
proof -
  have f: "find (\<lambda>j. j \<noteq> k \<and> signedBy (nodeCert (linkedUpto cs k ! k)) (nodeCert (linkedUpto cs k ! j)))
      [0..<length cs] = parentOf cs k"
    unfolding parentOf_def by (rule find_cong) (use k in auto)
  show ?thesis
  proof (cases "parentOf cs k")
    case None
    then show ?thesis
      by (simp add: linkInner_find f) (auto simp: linkedUpto_def less_Suc_eq)
  next
    case (Some p)
    note p = parentOf_SomeD[OF Some]
    show ?thesis
      unfolding linkInner_find f Some option.case Let_def
    proof (rule nth_equalityI, goal_cases)
      case (2 j)
      then have "j < length cs" by simp
      then show ?case
        using k p Some by (cases "j = k"; cases "j = p") (auto simp: less_Suc_eq)
    qed simp
  qed
qed

lemma linkNodes_newNode: "linkNodes (map newNode cs) = linkedUpto cs (length cs)"
proof -
  have "foldl (\<lambda>ns i. linkInner i [0..<length ns] ns) (linkedUpto cs 0) [0..<k] = linkedUpto cs k"
    if "k \<le> length cs" for k
    using that by (induction k) (simp_all add: linkInner_linkedUpto)
  moreover have "map newNode cs = linkedUpto cs 0"
    by (rule nth_equalityI) (auto simp: newNode_def)
  ultimately show ?thesis by (simp add: linkNodes_def)
qed

section \<open>Walking the parent pointers\<close>

text \<open>The list along a next function from a pointer to nil.\<close>

primrec plist :: "('p \<Rightarrow> 'p option) \<Rightarrow> 'p option \<Rightarrow> 'p list \<Rightarrow> bool" where
  "plist nx l [] \<longleftrightarrow> l = None"
| "plist nx l (a # as) \<longleftrightarrow> l = Some a \<and> plist nx (nx a) as"

lemma plist_unique: "plist nx l as \<Longrightarrow> plist nx l bs \<Longrightarrow> as = bs"
proof (induction as arbitrary: l bs)
  case Nil
  then show ?case by (cases bs) auto
next
  case (Cons a as)
  then show ?case by (cases bs) auto
qed

lemma plist_tail: "plist nx l (us @ a # vs) \<Longrightarrow> plist nx (nx a) vs"
  by (induction us arbitrary: l) auto

lemma plist_distinct: "plist nx l as \<Longrightarrow> distinct as"
proof (induction as arbitrary: l)
  case (Cons a as)
  then have as: "plist nx (nx a) as" by simp
  have "a \<notin> set as"
  proof
    assume "a \<in> set as"
    then obtain us vs where v: "as = us @ a # vs" by (auto simp: in_set_conv_decomp)
    then have "plist nx (nx a) vs" using as plist_tail by metis
    then have "vs = as" using as by (rule plist_unique)
    with v show False by (metis append_eq_conv_conj drop_eq_Nil length_append length_Cons
          less_add_Suc2 linorder_not_less list.discI order_refl)
  qed
  with Cons.IH[OF as] show ?case by simp
qed simp

lemma plist_nth: "plist nx l as \<Longrightarrow> Suc k < length as \<Longrightarrow> nx (as ! k) = Some (as ! Suc k)"
proof (induction as arbitrary: l k)
  case (Cons a as)
  show ?case
  proof (cases k)
    case 0
    with Cons.prems show ?thesis by (cases as) auto
  next
    case (Suc m)
    with Cons show ?thesis by auto
  qed
qed simp

lemma plist_bounded:
  assumes "plist nx l as" "\<And>i. l = Some i \<Longrightarrow> i < n" "\<And>i j. nx i = Some j \<Longrightarrow> j < n"
  shows "set as \<subseteq> {..<n}"
  using assms by (induction as arbitrary: l) auto

lemma chainWalk_plist:
  "chainWalk ns p l ch = Inr r \<Longrightarrow>
   \<exists>is. plist (\<lambda>i. nodeParent (ns ! i)) l is \<and> r = ch @ map (\<lambda>i. nodeCert (ns ! i)) is"
proof (induction ns p l ch rule: chainWalk.induct)
  case (1 ns p ch)
  then show ?case by (intro exI[of _ "[]"]) simp
next
  case (2 ns p a ch)
  then obtain as where "plist (\<lambda>i. nodeParent (ns ! i)) (nodeParent (ns ! a)) as"
    "r = (ch @ [nodeCert (ns ! a)]) @ map (\<lambda>i. nodeCert (ns ! i)) as"
    by (auto split: if_splits)
  then show ?case by (intro exI[of _ "a # as"]) simp
qed

lemma plist_chainWalk:
  "plist (\<lambda>i. nodeParent (ns ! i)) l as \<Longrightarrow> p + length as \<le> length ns \<Longrightarrow>
   chainWalk ns p l ch = Inr (ch @ map (\<lambda>i. nodeCert (ns ! i)) as)"
  by (induction as arbitrary: p l ch) auto

lemma chainWalk_error: "chainWalk ns p l ch = Inl e \<Longrightarrow> e = errCycle"
  by (induction ns p l ch rule: chainWalk.induct) (auto split: if_splits)

section \<open>What the chain is\<close>

text \<open>The walk over linked certificates, from the leaf the code picks.\<close>

lemma linkedUpto_map_cert:
  "set as \<subseteq> {..<length cs} \<Longrightarrow> map (\<lambda>i. nodeCert (linkedUpto cs k ! i)) as = map ((!) cs) as"
  by (induction as) auto

lemma plist_linkedUpto:
  assumes "\<And>i. l = Some i \<Longrightarrow> i < length cs"
  shows "plist (\<lambda>i. nodeParent (linkedUpto cs (length cs) ! i)) l as = plist (parentOf cs) l as"
  using assms
proof (induction as arbitrary: l)
  case (Cons x xs)
  show ?case
  proof (cases "l = Some x")
    case True
    with Cons.prems have "x < length cs" by simp
    with True Cons.IH[of "parentOf cs x"] show ?thesis by (auto dest: parentOf_SomeD(1))
  qed simp
qed simp

lemma walk_result:
  assumes walk: "chainWalk (linkedUpto cs (length cs)) 0 (Some leaf) [] = Inr chain"
    and leaf: "leaf < length cs"
  obtains as where "plist (parentOf cs) (Some leaf) as" "chain = map ((!) cs) as"
    "distinct as" "set as \<subseteq> {..<length cs}"
proof -
  let ?ns = "linkedUpto cs (length cs)"
  obtain as where as: "plist (\<lambda>i. nodeParent (?ns ! i)) (Some leaf) as"
      "chain = map (\<lambda>i. nodeCert (?ns ! i)) as"
    using chainWalk_plist[OF walk] by auto
  have pl: "plist (parentOf cs) (Some leaf) as"
    using as(1) plist_linkedUpto[of "Some leaf" cs as] leaf by simp
  have sub: "set as \<subseteq> {..<length cs}"
    by (rule plist_bounded[OF pl]) (use leaf in \<open>auto dest: parentOf_SomeD(1)\<close>)
  show ?thesis
    using that[OF pl] as(2) linkedUpto_map_cert[OF sub] plist_distinct[OF pl] sub by simp
qed

lemma linked_map:
  assumes "plist (parentOf cs) l as"
  shows "linked (map ((!) cs) as)"
  using plist_nth[OF assms] by (auto simp: linked_def dest: parentOf_SomeD(3))

lemma full_permutation:
  assumes "distinct as" "set as \<subseteq> {..<length cs}" "length as = length cs"
  shows "mset (map ((!) cs) as) = mset cs"
proof -
  have "card (set as) = length cs" using assms distinct_card by fastforce
  then have "set as = {..<length cs}" using assms(2) by (metis card_lessThan card_subset_eq finite_lessThan)
  then have "mset as = mset [0..<length cs]"
    using assms(1) set_eq_iff_mset_eq_distinct[of as "[0..<length cs]"] by (simp add: lessThan_atLeast0)
  then have "mset (map ((!) cs) as) = mset (map ((!) cs) [0..<length cs])" by (simp add: mset_map)
  then show ?thesis by (simp add: map_nth)
qed

lemma findLeaf_less: "findLeaf ns = Some l \<Longrightarrow> l < length ns"
  by (auto simp: findLeaf_def find_Some_iff)

section \<open>Parsing\<close>

lemma goodBlock_certBlock [simp]: "goodBlock (certBlock raw)"
  by (simp add: goodBlock_def certBlock_def CertificateType_def)

lemma parseNodes_newNode:
  "parseNodes parse d (map newNode cs) = Inr ns \<Longrightarrow> \<exists>cs'. ns = map newNode (cs @ cs')"
proof (induction parse d "map newNode cs" arbitrary: cs rule: parseNodes.induct)
  case (1 parse d)
  show ?case
  proof (cases "pem_Decode d")
    case None
    with "1.prems" show ?thesis
      by (subst (asm) parseNodes.simps) (auto intro!: exI[of _ "[]"])
  next
    case (Some br)
    obtain b r where br: "br = (b, r)" by (cases br)
    from "1.prems" Some br obtain c where c: "rbind (parse (pemBytes b)) certOf = Inr c"
      and p: "parseNodes parse r (map newNode (cs @ [c])) = Inr ns"
      by (subst (asm) parseNodes.simps) (auto split: sum.splits)
    have "\<exists>cs'. ns = map newNode ((cs @ [c]) @ cs')"
      by (rule "1.hyps"[OF Some br[symmetric] c]) (use p in auto)
    then show ?thesis by (metis append.assoc)
  qed
qed

text \<open>The loop over the text is the reading of its blocks, up to the first that fails.\<close>

lemma parseNodes_blocks:
  "parseNodes parse data ns =
     (case mapE (\<lambda>b. rbind (parse (pemBytes b)) certOf) (pemBlocks data) of
        Inl e \<Rightarrow> Inl e | Inr cs \<Rightarrow> Inr (ns @ map newNode cs))"
proof (induction parse data ns rule: parseNodes.induct)
  case (1 parse data ns)
  then show ?case
    by (subst parseNodes.simps, subst pemBlocks.simps) (auto split: option.splits sum.splits)
qed

lemma rbind_certOf:
  "rbind p certOf = Inr c \<longleftrightarrow> p = Inr (Some c)"
  "rbind p certOf = Inl e \<longleftrightarrow> p = Inl e \<or> p = Inr None \<and> e = Errorf ''certificate is nil'' []"
  by (auto simp: certOf_def rbind_def split: sum.splits option.splits)

lemma parseNodes_Inr:
  "parseNodes parse data [] = Inr ns \<longleftrightarrow> (\<exists>cs. ns = map newNode cs \<and> readAs parse (pemBlocks data) cs)"
proof -
  have "readAs parse (pemBlocks data) cs \<longleftrightarrow> mapE (\<lambda>b. rbind (parse (pemBytes b)) certOf) (pemBlocks data) = Inr cs" for cs
    by (simp add: readAs_def mapE_eq_Inr rbind_certOf)
  then show ?thesis by (auto simp: parseNodes_blocks split: sum.splits)
qed

lemma parseNodes_Inl:
  "parseNodes parse data [] = Inl e \<longleftrightarrow>
     (\<exists>before b after. pemBlocks data = before @ b # after \<and> (\<forall>x\<in>set before. \<exists>c. parse (pemBytes x) = Inr (Some c)) \<and>
        (parse (pemBytes b) = Inl e \<or> parse (pemBytes b) = Inr None \<and> e = Errorf ''certificate is nil'' []))"
proof -
  have "parseNodes parse data [] = Inl e \<longleftrightarrow> mapE (\<lambda>b. rbind (parse (pemBytes b)) certOf) (pemBlocks data) = Inl e"
    by (simp add: parseNodes_blocks split: sum.splits)
  then show ?thesis by (simp only: mapE_eq_Inl rbind_certOf)
qed

lemma pemBlocks_encoded:
  assumes "\<And>b. b \<in> set bs \<Longrightarrow> goodBlock b"
  shows "pemBlocks (concat (map EncodeToMemory bs)) = bs"
  using assms
proof (induction bs)
  case Nil
  then show ?case by (subst pemBlocks.simps) (simp add: pem.decode_Nil)
next
  case (Cons b bs)
  then have "pem_Decode (EncodeToMemory b @ concat (map EncodeToMemory bs)) = Some (b, concat (map EncodeToMemory bs))"
    by (simp add: pem.decode_encode)
  with Cons show ?case by (subst pemBlocks.simps) simp
qed

lemma parseNodes_step:
  "parseNodes parse d ns =
     (case pem_Decode d of
        None \<Rightarrow> Inr ns
      | Some (b, r) \<Rightarrow>
          (case (case rbind (parse (pemBytes b)) certOf of Inl e \<Rightarrow> Inl e | Inr c \<Rightarrow> Inr (ns @ [newNode c])) of
             Inl e \<Rightarrow> Inl e | Inr ns' \<Rightarrow> parseNodes parse r ns'))"
  by (subst parseNodes.simps) (auto split: option.splits sum.splits)

lemma parseNodes_encodeCerts:
  assumes "\<And>c. c \<in> set cs \<Longrightarrow> parse (Raw c) = Inr (Some c)"
  shows "parseNodes parse (encodeCerts cs) [] = Inr (map newNode cs)"
proof -
  let ?step = "\<lambda>ns b. case rbind (parse (pemBytes b)) certOf of Inl e \<Rightarrow> Inl e | Inr c \<Rightarrow> Inr (ns @ [newNode c])"
  have f: "foldE ?step (map newNode us) (map (\<lambda>c. certBlock (Raw c)) vs) = Inr (map newNode (us @ vs))"
    if "set vs \<subseteq> set cs" for us vs
    using that
  proof (induction vs arbitrary: us)
    case (Cons v vs)
    then have "rbind (parse (pemBytes (certBlock (Raw v)))) certOf = Inr v"
      using assms by (simp add: certBlock_def certOf_def)
    with Cons.IH[of "us @ [v]"] Cons.prems show ?case by simp
  qed simp
  have e: "encodeCerts cs = concat (map EncodeToMemory (map (\<lambda>c. certBlock (Raw c)) cs))"
    by (simp add: encodeCerts_def comp_def)
  have "parseNodes parse (concat (map EncodeToMemory (map (\<lambda>c. certBlock (Raw c)) cs))) [] =
      (case foldE ?step [] (map (\<lambda>c. certBlock (Raw c)) cs) of Inl e \<Rightarrow> Inl e | Inr ns \<Rightarrow> Inr ns)"
    by (rule pem.decode_loop[of "parseNodes parse", OF parseNodes_step]) auto
  then show ?thesis using f[of cs "[]"] by (simp add: e)
qed

section \<open>The result of fetchCertChains\<close>

lemma fetchCertChains_result:
  assumes "fetchCertChains parse data = Inr out"
  shows "\<exists>cs. parseNodes parse data [] = Inr (map newNode cs) \<and>
      (out = data \<or> (\<exists>chain. out = encodeCerts chain \<and> mset chain = mset cs \<and> linked chain))"
proof -
  from assms obtain ns leaf chain where ns: "parseNodes parse data [] = Inr ns"
    and leaf: "findLeaf (linkNodes ns) = Some leaf"
    and walk: "chainWalk (linkNodes ns) 0 (Some leaf) [] = Inr chain"
    and out: "out = (if length (linkNodes ns) \<noteq> length chain then data else encodeCerts chain)"
    by (auto simp: fetchCertChains_def result_simps Let_def split: option.splits if_splits)
  obtain cs where cs: "ns = map newNode cs" using parseNodes_newNode[of parse data "[]"] ns by auto
  note link = linkNodes_newNode[of cs]
  have "leaf < length cs" using findLeaf_less[OF leaf] cs link by simp
  with walk[unfolded cs link] obtain as where as: "plist (parentOf cs) (Some leaf) as"
    "chain = map ((!) cs) as" "distinct as" "set as \<subseteq> {..<length cs}"
    by (rule walk_result)
  have "out = encodeCerts chain \<and> mset chain = mset cs \<and> linked chain" if "out \<noteq> data"
    using that out cs link as full_permutation[of as cs] linked_map[OF as(1)]
    by (auto split: if_splits)
  then show ?thesis using ns cs by blast
qed

text \<open>
  Property C11. Chain building never loses, duplicates or invents a certificate: when it
  succeeds, the output is either the input unchanged or the encoding of a permutation of the
  certificates found in the input, in which every certificate is signed by the one after it.
\<close>

theorem fetchCertChains_permutation:
  assumes "fetchCertChains parse data = Inr out"
  shows "\<exists>cs. parseNodes parse data [] = Inr (map newNode cs) \<and>
      (out = data \<or> (\<exists>chain. out = encodeCerts chain \<and> mset chain = mset cs \<and> linked chain))"
  using assms by (rule fetchCertChains_result)

section \<open>Certificates of a proper chain in any order\<close>

lemma find_unique:
  assumes "j \<in> set xs" "P j" "\<And>i. i \<in> set xs \<Longrightarrow> P i \<Longrightarrow> i = j"
  shows "find P xs = Some j"
proof (cases "find P xs")
  case None
  with assms(1,2) show ?thesis by (simp add: find_None_iff)
next
  case (Some i)
  then have "i \<in> set xs" "P i" by (auto simp: find_Some_iff)
  with assms(3) Some show ?thesis by simp
qed

text \<open>The positions, in the given order, of the certificates of the chain.\<close>

lemma chain_positions:
  assumes proper: "properChain chain" and perm: "mset cs = mset chain"
  obtains f where "\<And>k. k < length chain \<Longrightarrow> f k < length cs \<and> cs ! f k = chain ! k"
    "\<And>i. i < length cs \<Longrightarrow> \<exists>k<length chain. f k = i"
    "\<And>k m. k < length chain \<Longrightarrow> m < length chain \<Longrightarrow> f k = f m \<longleftrightarrow> k = m"
proof -
  have dc: "distinct chain" using proper by (simp add: properChain_def)
  then have d: "distinct cs" using perm by (metis mset_eq_imp_distinct_iff)
  have st: "set cs = set chain" using perm by (metis mset_eq_setD)
  have "\<forall>k<length chain. \<exists>i. i < length cs \<and> cs ! i = chain ! k"
    using st by (metis in_set_conv_nth nth_mem)
  then obtain f where f: "\<And>k. k < length chain \<Longrightarrow> f k < length cs \<and> cs ! f k = chain ! k" by metis
  have "\<exists>k<length chain. f k = i" if i: "i < length cs" for i
  proof -
    have "cs ! i \<in> set chain" using i st nth_mem by blast
    then obtain k where "k < length chain" "chain ! k = cs ! i" by (auto simp: in_set_conv_nth)
    then show ?thesis using f[of k] d i nth_eq_iff_index_eq by metis
  qed
  moreover have "f k = f m \<longleftrightarrow> k = m" if "k < length chain" "m < length chain" for k m
    using f[of k] f[of m] that dc nth_eq_iff_index_eq by metis
  ultimately show ?thesis using that[of f] f by blast
qed

lemma proper_walk:
  assumes proper: "properChain chain" and perm: "mset cs = mset chain"
  shows "\<exists>leaf. findLeaf (linkedUpto cs (length cs)) = Some leaf \<and>
     chainWalk (linkedUpto cs (length cs)) 0 (Some leaf) [] = Inr chain"
proof -
  let ?n = "length chain" let ?ns = "linkedUpto cs (length cs)"
  obtain f
    where f: "\<And>k. k < ?n \<Longrightarrow> f k < length cs \<and> cs ! f k = chain ! k"
      and sur: "\<And>i. i < length cs \<Longrightarrow> \<exists>k<?n. f k = i"
      and inj: "\<And>k m. k < ?n \<Longrightarrow> m < ?n \<Longrightarrow> f k = f m \<longleftrightarrow> k = m"
    by (rule chain_positions[OF proper perm]) blast
  have len: "length cs = ?n" using perm by (metis size_mset)
  have n0: "0 < ?n" using proper by (simp add: properChain_def)
  have sb: "signedBy (cs ! f k) (cs ! f m) \<longleftrightarrow> m = Suc k" if "k < ?n" "m < ?n" "k \<noteq> m" for k m
    using that f proper by (simp add: properChain_def)
  have par: "parentOf cs (f k) = (if Suc k < ?n then Some (f (Suc k)) else None)" if k: "k < ?n" for k
  proof -
    have *: "i = f (Suc k) \<and> Suc k < ?n" if i: "i < length cs" "i \<noteq> f k" "signedBy (cs ! f k) (cs ! i)" for i
    proof -
      obtain m where m: "m < ?n" "f m = i" using sur i(1) by blast
      then have "m \<noteq> k" using i(2) by blast
      then show ?thesis using sb[OF k m(1)] m i(3) by auto
    qed
    show ?thesis
    proof (cases "Suc k < ?n")
      case True
      have "parentOf cs (f k) = Some (f (Suc k))" unfolding parentOf_def
        by (rule find_unique) (use f[OF True] inj[OF True k] sb[OF k True] * in auto)
      with True show ?thesis by simp
    next
      case False
      then show ?thesis unfolding parentOf_def using * by (auto simp: find_None_iff)
    qed
  qed
  have "findLeaf ?ns = Some (f 0)" unfolding findLeaf_def
  proof (rule find_unique)
    show "f 0 \<in> set [0..<length ?ns]" using f[OF n0] by simp
    have "parentOf cs i \<noteq> Some (f 0)" if "i < length cs" for i
      using sur[OF that] par inj n0 by (auto split: if_splits)
    then show "\<not> nodeIsParent (?ns ! f 0)" using f[OF n0] by simp
  next
    fix i assume i: "i \<in> set [0..<length ?ns]" "\<not> nodeIsParent (?ns ! i)"
    then obtain k where k: "k < ?n" "f k = i" using sur by auto
    show "i = f 0"
    proof (cases k)
      case (Suc m)
      then have "parentOf cs (f m) = Some i" "f m < length cs" using par[of m] k f[of m] by auto
      with i show ?thesis by auto
    qed (use k in simp)
  qed
  moreover have "plist (parentOf cs) (if k < ?n then Some (f k) else None) (map f [k..<?n])" if "k \<le> ?n" for k
    using that
  proof (induction "?n - k" arbitrary: k)
    case (Suc d)
    then have k: "k < ?n" by simp
    then show ?case using Suc.hyps(1)[of "Suc k"] Suc.hyps(2) par[OF k] by (simp add: upt_conv_Cons)
  qed simp
  from this[of 0] have "plist (\<lambda>i. nodeParent (?ns ! i)) (Some (f 0)) (map f [0..<?n])"
    using plist_linkedUpto[of "Some (f 0)" cs] f[OF n0] n0 by simp
  from plist_chainWalk[OF this, of 0 "[]"] have "chainWalk ?ns 0 (Some (f 0)) [] = Inr (map (\<lambda>k. nodeCert (?ns ! f k)) [0..<?n])"
    using len by (simp add: comp_def)
  moreover have "map (\<lambda>k. nodeCert (?ns ! f k)) [0..<?n] = chain"
    by (rule nth_equalityI) (use f in auto)
  ultimately show ?thesis by simp
qed

lemma fetchCertChains_proper:
  assumes "properChain chain" "mset cs = mset chain"
    and "\<And>c. c \<in> set chain \<Longrightarrow> parse (Raw c) = Inr (Some c)"
  shows "fetchCertChains parse (encodeCerts cs) = Inr (encodeCerts chain)"
proof -
  have "parseNodes parse (encodeCerts cs) [] = Inr (map newNode cs)"
    by (rule parseNodes_encodeCerts) (use assms(2,3) in \<open>metis mset_eq_setD\<close>)
  moreover have "length cs = length chain" using assms(2) by (metis size_mset)
  ultimately show ?thesis
    using proper_walk[OF assms(1,2)] by (auto simp: fetchCertChains_def linkNodes_newNode result_simps)
qed

text \<open>
  Property C10. The certificates of a proper chain, given in any order, come out in the order
  leaf, intermediates, root, whatever the order they came in.
\<close>

theorem fetchCertChains_ordered:
  assumes "properChain chain" "mset cs = mset chain"
    and "\<And>c. c \<in> set chain \<Longrightarrow> parse (Raw c) = Inr (Some c)"
  shows "fetchCertChains parse (encodeCerts cs) = Inr (encodeCerts chain)"
  using assms by (rule fetchCertChains_proper)

lemma findLeaf_linked:
  "findLeaf (linkedUpto cs (length cs)) =
     find (\<lambda>j. \<forall>i<length cs. parentOf cs i \<noteq> Some j) [0..<length cs]"
  unfolding findLeaf_def length_linkedUpto by (rule find_cong) auto

text \<open>The walk meets its bound exactly when the parents go round in a cycle.\<close>

lemma chainWalk_cycle:
  assumes "leaf < length cs"
  shows "(\<exists>e. chainWalk (linkedUpto cs (length cs)) 0 (Some leaf) [] = Inl e) \<longleftrightarrow> (\<nexists>as. plist (parentOf cs) (Some leaf) as)"
proof -
  let ?ns = "linkedUpto cs (length cs)"
  have eq: "plist (\<lambda>i. nodeParent (?ns ! i)) (Some leaf) as = plist (parentOf cs) (Some leaf) as" for as
    by (rule plist_linkedUpto) (use assms in simp)
  have "\<exists>ch. chainWalk ?ns 0 (Some leaf) [] = Inr ch" if pl: "plist (parentOf cs) (Some leaf) as" for as
  proof -
    have "set as \<subseteq> {..<length cs}"
      by (rule plist_bounded[OF pl]) (use assms in \<open>auto dest: parentOf_SomeD(1)\<close>)
    then have "card (set as) \<le> length cs" using card_mono[of "{..<length cs}" "set as"] by simp
    then have "length as \<le> length ?ns" using plist_distinct[OF pl] by (simp add: distinct_card)
    then show ?thesis using plist_chainWalk[of ?ns "Some leaf" as 0 "[]"] pl eq by auto
  qed
  moreover have "\<exists>as. plist (parentOf cs) (Some leaf) as" if "chainWalk ?ns 0 (Some leaf) [] = Inr ch" for ch
    using chainWalk_plist[OF that] eq by auto
  ultimately show ?thesis by (cases "chainWalk ?ns 0 (Some leaf) []") fastforce+
qed

lemma fetchCertChains_linked_error:
  assumes "parseNodes parse data [] = Inr (map newNode cs)"
  shows "fetchCertChains parse data = Inl e \<longleftrightarrow>
    e = Errorf ''no leaf found'' [] \<and> (\<forall>j<length cs. \<exists>i<length cs. parentOf cs i = Some j) \<or>
    e = errCycle \<and>
      (\<exists>leaf. find (\<lambda>j. \<forall>i<length cs. parentOf cs i \<noteq> Some j) [0..<length cs] = Some leaf \<and>
        (\<nexists>as. plist (parentOf cs) (Some leaf) as))"
proof (cases "find (\<lambda>j. \<forall>i<length cs. parentOf cs i \<noteq> Some j) [0..<length cs]")
  case None
  then have "\<forall>j<length cs. \<exists>i<length cs. parentOf cs i = Some j" by (auto simp: find_None_iff)
  with None assms show ?thesis
    by (auto simp: fetchCertChains_def linkNodes_newNode findLeaf_linked)
next
  case (Some leaf)
  then have l: "leaf < length cs" "\<forall>i<length cs. parentOf cs i \<noteq> Some leaf" by (auto simp: find_Some_iff)
  then have "\<not> (\<forall>j<length cs. \<exists>i<length cs. parentOf cs i = Some j)" by blast
  moreover have "fetchCertChains parse data = Inl e \<longleftrightarrow> chainWalk (linkedUpto cs (length cs)) 0 (Some leaf) [] = Inl e"
    using Some assms by (auto simp: fetchCertChains_def linkNodes_newNode findLeaf_linked rbind_def Let_def simp del: chainWalk.simps split: sum.splits if_splits)
  ultimately show ?thesis using chainWalk_cycle[OF l(1)] Some by (auto dest: chainWalk_error)
qed

text \<open>
  Property C35. Exactly when chain building fails, and with which error: with the error of the
  certificate parser, or that a certificate is nil, for the first block of the text that does not
  parse to a certificate, all before it having parsed; that no leaf was found when all blocks parse
  and each certificate is the parent of another one; and that there is a cycle when the parents
  of the first certificate that is nobody's parent never come to an end. In particular a text
  without certificates has no leaf.
\<close>

theorem fetchCertChains_errors:
  "fetchCertChains parse data = Inl e \<longleftrightarrow>
     (\<exists>before b after. pemBlocks data = before @ b # after \<and> (\<forall>x\<in>set before. \<exists>c. parse (pemBytes x) = Inr (Some c)) \<and>
        (parse (pemBytes b) = Inl e \<or> parse (pemBytes b) = Inr None \<and> e = Errorf ''certificate is nil'' [])) \<or>
     (\<exists>cs. readAs parse (pemBlocks data) cs \<and>
        (e = Errorf ''no leaf found'' [] \<and> (\<forall>j<length cs. \<exists>i<length cs. parentOf cs i = Some j) \<or>
         e = Errorf ''constructing chain resulted in cycle'' [] \<and>
           (\<exists>leaf. find (\<lambda>j. \<forall>i<length cs. parentOf cs i \<noteq> Some j) [0..<length cs] = Some leaf \<and>
             (\<nexists>as. plist (parentOf cs) (Some leaf) as))))"
proof (cases "parseNodes parse data []")
  case (Inl e')
  then have "\<nexists>cs. readAs parse (pemBlocks data) cs" using parseNodes_Inr[of parse data] by (metis sum.distinct(1))
  moreover have "fetchCertChains parse data = Inl e \<longleftrightarrow> parseNodes parse data [] = Inl e"
    using Inl by (simp add: fetchCertChains_def rbind_def)
  ultimately show ?thesis by (simp only: parseNodes_Inl) blast
next
  case (Inr ns)
  then obtain cs where cs: "ns = map newNode cs" "readAs parse (pemBlocks data) cs" by (auto simp: parseNodes_Inr)
  then have uniq: "readAs parse (pemBlocks data) cs' \<longleftrightarrow> cs' = cs" for cs'
    by (auto simp: readAs_def list_all2_conv_all_nth intro!: nth_equalityI)
  have "parseNodes parse data [] \<noteq> Inl e" using Inr by simp
  then show ?thesis
    unfolding parseNodes_Inl fetchCertChains_linked_error[OF Inr[unfolded cs(1)]] errCycle_def uniq by blast
qed

section \<open>Witnesses\<close>

text \<open>A leaf without a subject key identifier, an intermediate and a self-signed root.\<close>

definition leafCert :: certificate where
  "leafCert = \<lparr>AuthorityKeyId = Some ''i'', SubjectKeyId = None, Raw = ''L''\<rparr>"

definition interCert :: certificate where
  "interCert = \<lparr>AuthorityKeyId = Some ''r'', SubjectKeyId = Some ''i'', Raw = ''I''\<rparr>"

definition rootCert :: certificate where
  "rootCert = \<lparr>AuthorityKeyId = Some ''r'', SubjectKeyId = Some ''r'', Raw = ''R''\<rparr>"

definition toyParse :: cert_parser where
  "toyParse raw =
     (case find (\<lambda>c. Raw c = raw) [leafCert, interCert, rootCert] of
        None \<Rightarrow> Inl (External ''x509: malformed certificate'') | Some c \<Rightarrow> Inr (Some c))"

lemmas toy_defs = leafCert_def interCert_def rootCert_def toyParse_def

lemma toy_proper: "properChain [leafCert, interCert, rootCert]"
  by (auto simp: properChain_def signedBy_def sliceString_def toy_defs less_Suc_eq)

theorem fetchCertChains_ordered_witness:
  "fetchCertChains toyParse (encodeCerts [rootCert, leafCert, interCert]) =
   Inr (encodeCerts [leafCert, interCert, rootCert])"
  by (rule fetchCertChains_ordered[OF toy_proper]) (auto simp: toy_defs)

lemma toy_fetch:
  "fetchCertChains toyParse (encodeCerts [interCert, rootCert]) = Inr (encodeCerts [interCert, rootCert])"
  by code_simp

theorem fetchCertChains_permutation_witness:
  "\<exists>cs. parseNodes toyParse (encodeCerts [interCert, rootCert]) [] = Inr (map newNode cs) \<and>
     (encodeCerts [interCert, rootCert] = encodeCerts [interCert, rootCert] \<or>
      (\<exists>chain. encodeCerts [interCert, rootCert] = encodeCerts chain \<and> mset chain = mset cs \<and> linked chain))"
  by (rule fetchCertChains_permutation[OF toy_fetch])

text \<open>A certificate the parser refuses: the parser's error is the result.\<close>

lemma toy_refused:
  "fetchCertChains toyParse (EncodeToMemory (certBlock ''X'')) = Inl (External ''x509: malformed certificate'')"
  by code_simp

theorem fetchCertChains_errors_witness:
  "\<exists>before b after. pemBlocks (EncodeToMemory (certBlock ''X'')) = before @ b # after \<and>
     toyParse (pemBytes b) = Inl (External ''x509: malformed certificate'')"
  using fetchCertChains_errors[of toyParse "EncodeToMemory (certBlock ''X'')" "External ''x509: malformed certificate''"]
    toy_refused by auto

end
