(* ===== verification/Pkix.thy ===== *)
theory Pkix
  imports Prelude
begin

text \<open>
  \<open>x509.MarshalPKIXPublicKey\<close> for the two kinds of keys the provider writes: DER lengths and
  integers, the algorithm identifiers, the check that a point is on its curve, and the
  uncompressed form of a point. A decoder of the same format is the reference for what a file of
  a key says: decoding gives back the key that was encoded.
\<close>

section \<open>Keys\<close>

datatype curve = P256 | P384 | P521

text \<open>A public key: modulus and exponent, or the coordinates of a point on a curve.\<close>

datatype publicKey = RSAPublicKey nat int | ECPublicKey nat nat curve

definition bigEndian :: "bytes \<Rightarrow> nat" where
  "bigEndian bs = foldl (\<lambda>n c. 256 * n + of_char c) 0 bs"

fun curveP :: "curve \<Rightarrow> nat" where
  "curveP P256 = 2 ^ 256 - 2 ^ 224 + 2 ^ 192 + 2 ^ 96 - 1"
| "curveP P384 = 2 ^ 384 - 2 ^ 128 - 2 ^ 96 + 2 ^ 32 - 1"
| "curveP P521 = 2 ^ 521 - 1"

fun curveB :: "curve \<Rightarrow> nat" where
  "curveB P256 = 0x5ac635d8aa3a93e7b3ebbd55769886bc651d06b0cc53b0f63bce3c3e27d2604b"
| "curveB P384 =
     0xb3312fa7e23ee7e4988e056be3f82d19181d9c6efe8141120314088f5013875ac656398d8a2ed19d2a85c8edd3ec2aef"
| "curveB P521 =
     0x51953eb9618e1c9a1f929a21a0b68540eea2da725b99b315f3b8b489918ef109e156193951ec7e937b1652c0bd3bb1bf073573df883d2c34f1ef451fd46b503f00"

fun byteLen :: "curve \<Rightarrow> nat" where
  "byteLen P256 = 32"
| "byteLen P384 = 48"
| "byteLen P521 = 66"

definition IsOnCurve :: "curve \<Rightarrow> nat \<Rightarrow> nat \<Rightarrow> bool" where
  "IsOnCurve c x y \<longleftrightarrow>
     \<not> (x = 0 \<and> y = 0) \<and> x < curveP c \<and> y < curveP c \<and>
     y * y mod curveP c = (x * x * x + (curveP c - 3) * x + curveB c) mod curveP c"

section \<open>DER\<close>

function intBytes :: "int \<Rightarrow> bytes" where
  "intBytes i =
     (if - 128 \<le> i \<and> i \<le> 127 then [char_of (i mod 256)]
      else intBytes (i div 256) @ [char_of (i mod 256)])"
  by pat_completeness auto
termination
  by (relation "measure (\<lambda>i. nat (abs i))") auto

fun natBytes :: "nat \<Rightarrow> bytes" where
  "natBytes n = (if n < 256 then [char_of n] else natBytes (n div 256) @ [char_of (n mod 256)])"

declare intBytes.simps [simp del] natBytes.simps [simp del]

fun fillBytes :: "nat \<Rightarrow> nat \<Rightarrow> bytes" where
  "fillBytes 0 n = []"
| "fillBytes (Suc k) n = fillBytes k (n div 256) @ [char_of (n mod 256)]"

definition derLen :: "nat \<Rightarrow> bytes" where
  "derLen n = (if n < 128 then [char_of n] else char_of (128 + length (natBytes n)) # natBytes n)"

definition tlv :: "char \<Rightarrow> bytes \<Rightarrow> bytes" where
  "tlv tag content = tag # derLen (length content) @ content"

definition oidRSA :: bytes where
  "oidRSA = [CHR 0x2A, CHR 0x86, CHR 0x48, CHR 0x86, CHR 0xF7, CHR 0x0D, CHR 0x01, CHR 0x01, CHR 0x01]"

definition oidECDSA :: bytes where
  "oidECDSA = [CHR 0x2A, CHR 0x86, CHR 0x48, CHR 0xCE, CHR 0x3D, CHR 0x02, CHR 0x01]"

fun oidCurve :: "curve \<Rightarrow> bytes" where
  "oidCurve P256 = [CHR 0x2A, CHR 0x86, CHR 0x48, CHR 0xCE, CHR 0x3D, CHR 0x03, CHR 0x01, CHR 0x07]"
| "oidCurve P384 = [CHR 0x2B, CHR 0x81, CHR 0x04, CHR 0x00, CHR 0x22]"
| "oidCurve P521 = [CHR 0x2B, CHR 0x81, CHR 0x04, CHR 0x00, CHR 0x23]"

definition derNull :: bytes where
  "derNull = [CHR 0x05, CHR 0x00]"

definition derInt :: "int \<Rightarrow> bytes" where
  "derInt i = tlv (CHR 0x02) (intBytes i)"

text \<open>The algorithm identifier and the key in a bit string without unused bits.\<close>

definition publicKeyInfo :: "bytes \<Rightarrow> bytes \<Rightarrow> bytes \<Rightarrow> bytes" where
  "publicKeyInfo oid params key =
     tlv (CHR 0x30) (tlv (CHR 0x30) (tlv (CHR 0x06) oid @ params) @ tlv (CHR 0x03) (CHR 0x00 # key))"

fun MarshalPKIXPublicKey :: "publicKey \<Rightarrow> bytes result" where
  "MarshalPKIXPublicKey (RSAPublicKey n e) =
     Inr (publicKeyInfo oidRSA derNull (tlv (CHR 0x30) (derInt (int n) @ derInt e)))"
| "MarshalPKIXPublicKey (ECPublicKey x y c) =
     (if IsOnCurve c x y
      then Inr (publicKeyInfo oidECDSA (tlv (CHR 0x06) (oidCurve c))
                  (CHR 0x04 # fillBytes (byteLen c) x @ fillBytes (byteLen c) y))
      else Inl (External ''x509: invalid elliptic curve public key''))"

section \<open>The decoder\<close>

fun readLen :: "bytes \<Rightarrow> (nat \<times> bytes) option" where
  "readLen [] = None"
| "readLen (c # s) =
     (let k = of_char c :: nat in
      if k < 128 then Some (k, s)
      else if length s < k - 128 then None
      else Some (bigEndian (take (k - 128) s), drop (k - 128) s))"

text \<open>The content of an element with the given tag, and what follows it.\<close>

fun readTLV :: "char \<Rightarrow> bytes \<Rightarrow> (bytes \<times> bytes) option" where
  "readTLV tag [] = None"
| "readTLV tag (t # s) =
     (if t \<noteq> tag then None
      else (case readLen s of
              None \<Rightarrow> None
            | Some (n, r) \<Rightarrow> if length r < n then None else Some (take n r, drop n r)))"

definition readAll :: "char \<Rightarrow> bytes \<Rightarrow> bytes option" where
  "readAll tag s = (case readTLV tag s of Some (c, []) \<Rightarrow> Some c | _ \<Rightarrow> None)"

definition signedVal :: "bytes \<Rightarrow> int" where
  "signedVal bs =
     foldl (\<lambda>n c. 256 * n + of_char c) (if bs \<noteq> [] \<and> 128 \<le> (of_char (hd bs) :: int) then - 1 else 0) bs"

definition readRSA :: "bytes \<Rightarrow> publicKey option" where
  "readRSA key =
     Option.bind (readAll (CHR 0x30) key) (\<lambda>s.
     Option.bind (readTLV (CHR 0x02) s) (\<lambda>(n, s').
     Option.bind (readAll (CHR 0x02) s') (\<lambda>e.
     Some (RSAPublicKey (nat (signedVal n)) (signedVal e)))))"

definition readEC :: "curve \<Rightarrow> bytes \<Rightarrow> publicKey option" where
  "readEC c key =
     (if length key = 1 + 2 * byteLen c \<and> hd key = CHR 0x04
      then Some (ECPublicKey (bigEndian (take (byteLen c) (tl key))) (bigEndian (drop (byteLen c) (tl key))) c)
      else None)"

definition parsePKIX :: "bytes \<Rightarrow> publicKey option" where
  "parsePKIX der =
     Option.bind (readAll (CHR 0x30) der) (\<lambda>s.
     Option.bind (readTLV (CHR 0x30) s) (\<lambda>(alg, s').
     Option.bind (readTLV (CHR 0x06) alg) (\<lambda>(oid, params).
     Option.bind (readAll (CHR 0x03) s') (\<lambda>bits.
     if bits = [] \<or> hd bits \<noteq> CHR 0x00 then None
     else if oid = oidRSA \<and> params = derNull then readRSA (tl bits)
     else if oid = oidECDSA then
       Option.bind (find (\<lambda>c. params = tlv (CHR 0x06) (oidCurve c)) [P256, P384, P521]) (\<lambda>c. readEC c (tl bits))
     else None))))"

section \<open>Round trips\<close>

lemma bigEndian_snoc [simp]: "bigEndian (bs @ [c]) = 256 * bigEndian bs + of_char c"
  by (simp add: bigEndian_def)

lemma bigEndian_Nil [simp]: "bigEndian [] = 0"
  by (simp add: bigEndian_def)

lemma bigEndian_bound: "bigEndian bs < 256 ^ length bs"
proof (induction bs rule: rev_induct)
  case (snoc c bs)
  have "(of_char c :: nat) < 256" by (metis mod_less_divisor of_char_mod_256 zero_less_numeral)
  moreover have "256 * Suc (bigEndian bs) \<le> 256 * 256 ^ length bs" using snoc by (simp only: Suc_leI mult_le_mono2)
  ultimately show ?case unfolding bigEndian_snoc length_append_singleton power_Suc mult_Suc_right by linarith
qed simp

lemma bigEndian_natBytes: "bigEndian (natBytes n) = n"
proof (induction n rule: natBytes.induct)
  case (1 n)
  show ?case
  proof (cases "n < 256")
    case True
    then show ?thesis by (subst natBytes.simps) (simp add: bigEndian_def)
  next
    case False
    with 1 show ?thesis by (subst natBytes.simps) simp
  qed
qed

lemma natBytes_length: "n < 256 ^ k \<Longrightarrow> 0 < k \<Longrightarrow> length (natBytes n) \<le> k"
proof (induction n arbitrary: k rule: natBytes.induct)
  case (1 n)
  show ?case
  proof (cases "n < 256")
    case True
    with 1 show ?thesis by (subst natBytes.simps) simp
  next
    case False
    then obtain j where k: "k = Suc j" "0 < j" using 1(2,3) by (cases k; cases "k - 1") auto
    then have "n div 256 < 256 ^ j" using 1(2) by (simp add: less_mult_imp_div_less mult.commute)
    from 1(1)[OF False this k(2)] False k show ?thesis by (subst natBytes.simps) simp
  qed
qed

lemma length_fillBytes [simp]: "length (fillBytes k n) = k"
  by (induction k arbitrary: n) simp_all

lemma bigEndian_fillBytes: "n < 256 ^ k \<Longrightarrow> bigEndian (fillBytes k n) = n"
  by (induction k arbitrary: n) (simp_all add: less_mult_imp_div_less mult.commute)

lemma readLen_derLen: "n < 256 ^ 8 \<Longrightarrow> readLen (derLen n @ s) = Some (n, s)"
proof (cases "n < 128")
  case False
  assume "n < 256 ^ 8"
  then have "length (natBytes n) \<le> 8" by (rule natBytes_length) simp
  then show ?thesis using False by (simp add: derLen_def bigEndian_natBytes)
qed (simp add: derLen_def)

lemma readTLV_tlv: "length c < 256 ^ 8 \<Longrightarrow> readTLV tag (tlv tag c @ s) = Some (c, s)"
  by (simp add: tlv_def readLen_derLen del: readLen.simps)

lemma readAll_tlv: "length c < 256 ^ 8 \<Longrightarrow> readAll tag (tlv tag c) = Some c"
  using readTLV_tlv[of c tag "[]"] by (simp add: readAll_def)

lemma tlv_length: "length c < 256 ^ 8 \<Longrightarrow> length (tlv tag c) \<le> length c + 10"
  using natBytes_length[of "length c" 8] by (simp add: tlv_def derLen_def)

lemma intBytes_not_Nil [simp]: "intBytes i \<noteq> []"
  by (subst intBytes.simps) simp

lemma hd_intBytes: "128 \<le> (of_char (hd (intBytes i)) :: int) \<longleftrightarrow> i < 0"
proof (induction i rule: intBytes.induct)
  case (1 i)
  show ?case
  proof (cases "- 128 \<le> i \<and> i \<le> 127")
    case True
    then have "intBytes i = [char_of (i mod 256)]" by (subst intBytes.simps) simp
    moreover have "128 \<le> i mod 256 \<longleftrightarrow> i < 0"
    proof (cases "i < 0")
      case True
      then have "i mod 256 = i + 256" using \<open>- 128 \<le> i \<and> i \<le> 127\<close> by presburger
      with True \<open>- 128 \<le> i \<and> i \<le> 127\<close> show ?thesis by simp
    qed (use True in simp)
    ultimately show ?thesis by simp
  next
    case False
    then have "intBytes i = intBytes (i div 256) @ [char_of (i mod 256)]" by (subst intBytes.simps) simp
    then show ?thesis using 1 False by (simp add: pos_imp_zdiv_neg_iff)
  qed
qed

lemma foldl_intBytes:
  "foldl (\<lambda>n c. 256 * n + of_char c) (if i < 0 then - 1 else 0) (intBytes i) = i"
proof (induction i rule: intBytes.induct)
  case (1 i)
  have b: "of_char (char_of (i mod 256) :: char) = i mod 256" by simp
  show ?case
  proof (cases "- 128 \<le> i \<and> i \<le> 127")
    case True
    then have "intBytes i = [char_of (i mod 256)]" by (subst intBytes.simps) simp
    moreover have "i < 0 \<Longrightarrow> i mod 256 = i + 256" using True by presburger
    ultimately show ?thesis using b True by auto
  next
    case False
    then have "intBytes i = intBytes (i div 256) @ [char_of (i mod 256)]" by (subst intBytes.simps) simp
    moreover have "i div 256 < 0 \<longleftrightarrow> i < 0" by (simp add: pos_imp_zdiv_neg_iff)
    ultimately show ?thesis using 1 False b by simp
  qed
qed

lemma signedVal_intBytes: "signedVal (intBytes i) = i"
  using foldl_intBytes[of i] hd_intBytes[of i] by (simp add: signedVal_def)

lemma intBytes_length: "- (2 ^ (8 * k + 7)) \<le> i \<Longrightarrow> i < 2 ^ (8 * k + 7) \<Longrightarrow> length (intBytes i) \<le> Suc k"
proof (induction i arbitrary: k rule: intBytes.induct)
  case (1 i)
  show ?case
  proof (cases "- 128 \<le> i \<and> i \<le> 127")
    case True
    then show ?thesis by (subst intBytes.simps) simp
  next
    case False
    then obtain j where k: "k = Suc j" using 1(2,3) by (cases k) auto
    have "- (2 ^ (8 * j + 7)) \<le> i div 256" "i div 256 < 2 ^ (8 * j + 7)"
      using 1(2,3) k by (auto simp: power_add)
    from 1(1)[OF False this] False k show ?thesis by (subst intBytes.simps) simp
  qed
qed

text \<open>Keys whose encoding has lengths of at most eight bytes.\<close>

fun encodable :: "publicKey \<Rightarrow> bool" where
  "encodable (RSAPublicKey n e) \<longleftrightarrow> length (intBytes (int n)) < 2 ^ 32 \<and> length (intBytes e) < 2 ^ 32"
| "encodable (ECPublicKey x y c) \<longleftrightarrow> True"

lemma publicKeyInfo_parse:
  assumes "length oid < 100" "length params < 100" "length key < 2 ^ 40"
  shows "Option.bind (readAll (CHR 0x30) (publicKeyInfo oid params key)) (\<lambda>s.
     Option.bind (readTLV (CHR 0x30) s) (\<lambda>(alg, s').
     Option.bind (readTLV (CHR 0x06) alg) (\<lambda>(oid', params').
     Option.bind (readAll (CHR 0x03) s') (\<lambda>bits. f oid' params' bits)))) = f oid params (CHR 0x00 # key)"
proof -
  let ?alg = "tlv (CHR 0x06) oid @ params" let ?bits = "tlv (CHR 0x03) (CHR 0x00 # key)"
  have o: "length (tlv (CHR 0x06) oid) \<le> length oid + 10" using assms(1) by (intro tlv_length) simp
  then have a: "length ?alg < 256 ^ 8" using assms by simp
  have b: "length ?bits \<le> length key + 11" using tlv_length[of "CHR 0x00 # key" "CHR 0x03"] assms(3) by simp
  have "length (tlv (CHR 0x30) ?alg) \<le> length ?alg + 10" using a by (rule tlv_length)
  then have all: "length (tlv (CHR 0x30) ?alg @ ?bits) < 256 ^ 8" using o b assms by simp
  show ?thesis
    using readAll_tlv[OF all] readTLV_tlv[OF a] readTLV_tlv[of oid "CHR 0x06" params] assms
      readAll_tlv[of "CHR 0x00 # key" "CHR 0x03"]
    by (simp add: publicKeyInfo_def)
qed

lemma parsePKIX_info:
  assumes "length oid < 100" "length params < 100" "length key < 2 ^ 40"
  shows "parsePKIX (publicKeyInfo oid params key) =
    (if oid = oidRSA \<and> params = derNull then readRSA key
     else if oid = oidECDSA then
       Option.bind (find (\<lambda>c. params = tlv (CHR 0x06) (oidCurve c)) [P256, P384, P521]) (\<lambda>c. readEC c key)
     else None)"
  unfolding parsePKIX_def publicKeyInfo_parse[OF assms] by simp

lemma readRSA_key:
  assumes "length (intBytes (int n)) < 2 ^ 32" "length (intBytes e) < 2 ^ 32"
  shows "readRSA (tlv (CHR 0x30) (derInt (int n) @ derInt e)) = Some (RSAPublicKey n e)"
    and "length (tlv (CHR 0x30) (derInt (int n) @ derInt e)) < 2 ^ 40"
proof -
  have "length (derInt (int n)) \<le> length (intBytes (int n)) + 10" "length (derInt e) \<le> length (intBytes e) + 10"
    unfolding derInt_def using assms by (intro tlv_length; simp)+
  then have l: "length (derInt (int n) @ derInt e) < 2 ^ 34" using assms by simp
  then have "length (derInt (int n) @ derInt e) < 256 ^ 8" by simp
  from readAll_tlv[OF this] tlv_length[OF this, of "CHR 0x30"] l
  show "readRSA (tlv (CHR 0x30) (derInt (int n) @ derInt e)) = Some (RSAPublicKey n e)"
    "length (tlv (CHR 0x30) (derInt (int n) @ derInt e)) < 2 ^ 40"
    using readTLV_tlv[of "intBytes (int n)" "CHR 0x02" "derInt e"] readAll_tlv[of "intBytes e" "CHR 0x02"] assms
    by (simp_all add: readRSA_def derInt_def signedVal_intBytes)
qed

lemma curve_tlv:
  "find (\<lambda>c'. tlv (CHR 0x06) (oidCurve c) = tlv (CHR 0x06) (oidCurve c')) [P256, P384, P521] = Some c"
  "length (tlv (CHR 0x06) (oidCurve c)) < 100"
  by (cases c; simp add: tlv_def derLen_def)+

lemma curveP_bytes: "curveP c < 256 ^ byteLen c"
  by (cases c) simp_all

text \<open>What was encoded is what a reader of the file decodes.\<close>

lemma parsePKIX_marshal:
  assumes "MarshalPKIXPublicKey k = Inr der" "encodable k"
  shows "parsePKIX der = Some k"
proof (cases k)
  case (RSAPublicKey n e)
  have "length oidRSA < 100" "length derNull < 100" by (simp_all add: oidRSA_def derNull_def)
  with parsePKIX_info readRSA_key[of n e] assms RSAPublicKey show ?thesis by auto
next
  case (ECPublicKey x y c)
  have "length oidECDSA < 100" "oidECDSA \<noteq> oidRSA" by (simp_all add: oidECDSA_def oidRSA_def)
  moreover have on: "x < 256 ^ byteLen c" "y < 256 ^ byteLen c"
    using assms(1) ECPublicKey curveP_bytes[of c] by (auto simp: IsOnCurve_def split: if_splits)
  have "readEC c (CHR 0x04 # fillBytes (byteLen c) x @ fillBytes (byteLen c) y) = Some (ECPublicKey x y c)"
    by (simp add: readEC_def bigEndian_fillBytes on)
  moreover have "length (CHR 0x04 # fillBytes (byteLen c) x @ fillBytes (byteLen c) y) < 2 ^ 40" by (cases c) simp_all
  ultimately show ?thesis
    using assms(1) ECPublicKey parsePKIX_info[of oidECDSA "tlv (CHR 0x06) (oidCurve c)"] curve_tlv[of c]
    by (auto split: if_splits)
qed

end
