(* ===== verification/Certs.thy ===== *)
theory Certs
  imports CertChain Pkix
begin

text \<open>
  Certificates with private keys, from \<open>provider.go\<close>: \<open>decodePKCS12\<close> turns a base64 PFX
  into PEM, \<open>parsePrivateKey\<close> tries the three key formats, \<open>splitCertAndKey\<close> separates the
  certificates of a PEM text from everything else. The PKCS#12 package and the ASN.1 functions
  of \<open>crypto/x509\<close> are the fields of a record that the definitions take; \<open>'k\<close> is the type of a
  parsed private key.
\<close>

section \<open>The code\<close>

record 'k cryptoLib =
  ToPEM :: "bytes \<Rightarrow> pemBlock list result"
  ParsePKCS1PrivateKey :: "bytes \<Rightarrow> 'k result"
  ParsePKCS8PrivateKey :: "bytes \<Rightarrow> 'k result"
  ParseECPrivateKey :: "bytes \<Rightarrow> 'k result"
  MarshalPKCS8PrivateKey :: "'k \<Rightarrow> bytes result"
  ParseCertificate :: cert_parser

definition getCurve :: "string \<Rightarrow> curve result" where
  "getCurve crv =
     (if crv = ''P-256'' then Inr P256
      else if crv = ''P-384'' then Inr P384
      else if crv = ''P-521'' then Inr P521
      else Inl (Errorf ''curve %s is not supported'' [crv]))"

definition errParseKey :: go_error where
  "errParseKey = Errorf ''failed to parse key for type pkcs1, pkcs8 or ec'' []"

definition parsePrivateKey :: "'k cryptoLib \<Rightarrow> bytes \<Rightarrow> 'k result" where
  "parsePrivateKey lib block =
     (case ParsePKCS1PrivateKey lib block of
        Inr key \<Rightarrow> Inr key
      | Inl _ \<Rightarrow>
          (case ParsePKCS8PrivateKey lib block of
             Inr key \<Rightarrow> Inr key
           | Inl _ \<Rightarrow>
               (case ParseECPrivateKey lib block of
                  Inr key \<Rightarrow> Inr key
                | Inl _ \<Rightarrow> Inl errParseKey)))"

text \<open>The loop over the blocks of the PFX; its state is \<open>(pemKeyData, pemCertData)\<close>.\<close>

definition pkcs12Step :: "'k cryptoLib \<Rightarrow> bytes \<times> bytes \<Rightarrow> pemBlock \<Rightarrow> (bytes \<times> bytes) result" where
  "pkcs12Step lib st block0 =
     (let (pemKeyData, pemCertData) = st;
          block = block0\<lparr>pemHeaders := []\<rparr>
      in if pemType block = CertificateType
         then Inr (pemKeyData, pemCertData @ EncodeToMemory block)
         else rbind (parsePrivateKey lib (pemBytes block)) (\<lambda>key.
              rbind (MarshalPKCS8PrivateKey lib key) (\<lambda>der.
              Inr (pemKeyData @ EncodeToMemory (block\<lparr>pemBytes := der\<rparr>), pemCertData))))"

definition decodePKCS12 :: "'k cryptoLib \<Rightarrow> bool \<Rightarrow> string \<Rightarrow> string result" where
  "decodePKCS12 lib constructPEMChain val =
     rbind (base64_DecodeString val) (\<lambda>pfxRaw.
     rbind (ToPEM lib pfxRaw) (\<lambda>blocks.
     rbind (foldE (pkcs12Step lib) ([], []) blocks) (\<lambda>(pemKeyData, pemCertData).
     rbind (if constructPEMChain then fetchCertChains (ParseCertificate lib) pemCertData
            else Inr pemCertData) (\<lambda>pemCertData'.
     Inr (pemKeyData @ pemCertData')))))"

function splitLoop :: "bytes \<Rightarrow> bytes \<Rightarrow> bytes \<Rightarrow> bytes \<times> bytes" where
  "splitLoop data cert key =
     (case pem_Decode data of
        None \<Rightarrow> (cert, key)
      | Some (block, rest) \<Rightarrow>
          if pemType block = CertificateType
          then splitLoop rest (cert @ EncodeToMemory block) key
          else splitLoop rest cert (key @ EncodeToMemory block))"
  by pat_completeness auto
termination
  by (relation "measure (\<lambda>(d, c, k). length d)") (auto dest: pem_Decode_shorter)

declare splitLoop.simps [simp del]

definition splitCertAndKey :: "string \<Rightarrow> string \<times> string" where
  "splitCertAndKey certAndKey = splitLoop certAndKey [] []"

section \<open>Specification\<close>

definition isCert :: "pemBlock \<Rightarrow> bool" where
  "isCert b \<longleftrightarrow> pemType b = CertificateType"

definition pemText :: "pemBlock list \<Rightarrow> bytes" where
  "pemText bs = concat (map EncodeToMemory bs)"

text \<open>A private key block of the PFX as it is written: without headers, in PKCS#8 form.\<close>

definition pkcs8Block :: "'k cryptoLib \<Rightarrow> pemBlock \<Rightarrow> pemBlock result" where
  "pkcs8Block lib b =
     rbind (parsePrivateKey lib (pemBytes b)) (\<lambda>key.
     rbind (MarshalPKCS8PrivateKey lib key) (\<lambda>der.
     Inr (b\<lparr>pemHeaders := [], pemBytes := der\<rparr>)))"

definition bareBlock :: "pemBlock \<Rightarrow> pemBlock" where
  "bareBlock b = b\<lparr>pemHeaders := []\<rparr>"

definition plainType :: "string \<Rightarrow> bool" where
  "plainType ty \<longleftrightarrow> nl \<notin> set ty \<and> CHR '':'' \<notin> set ty"

lemma pemText_append [simp]: "pemText (xs @ ys) = pemText xs @ pemText ys"
  by (simp add: pemText_def)

lemma pemText_simps [simp]: "pemText [] = []" "pemText (b # bs) = EncodeToMemory b @ pemText bs"
  by (simp_all add: pemText_def)

lemma encodeCerts_pemText: "encodeCerts cs = pemText (map (\<lambda>c. certBlock (Raw c)) cs)"
  by (simp add: encodeCerts_def pemText_def comp_def)

lemma splitLoop_pemText:
  assumes "\<And>b. b \<in> set bs \<Longrightarrow> goodBlock b"
  shows "splitLoop (pemText bs) c k = (c @ pemText (filter isCert bs), k @ pemText (filter (\<lambda>b. \<not> isCert b) bs))"
proof -
  define step :: "bytes \<times> bytes \<Rightarrow> pemBlock \<Rightarrow> (bytes \<times> bytes) result" where
    "step = (\<lambda>(c, k) b. Inr (if isCert b then (c @ EncodeToMemory b, k) else (c, k @ EncodeToMemory b)))"
  let ?loop = "\<lambda>d (c, k). splitLoop d c k"
  have loop: "?loop s a = (case pem_Decode s of None \<Rightarrow> a
      | Some (b, r) \<Rightarrow> (case step a b of Inl e \<Rightarrow> undefined e | Inr a' \<Rightarrow> ?loop r a'))" for s a
    by (cases a) (subst splitLoop.simps, auto simp: step_def isCert_def split: option.splits)
  have "foldE step (c, k) bs = Inr (c @ pemText (filter isCert bs), k @ pemText (filter (\<lambda>b. \<not> isCert b) bs))"
    for c k by (induction bs arbitrary: c k) (auto simp: step_def)
  moreover have "?loop (concat (map EncodeToMemory bs)) (c, k) =
      (case foldE step (c, k) bs of Inl e \<Rightarrow> undefined e | Inr a' \<Rightarrow> a')"
    by (rule pem.decode_loop[where fin = "\<lambda>a. a"]) (use loop assms in auto)
  ultimately show ?thesis by (simp add: pemText_def)
qed

lemma pkcs12Step_eq:
  "pkcs12Step lib (k, c) b =
     (if isCert b then Inr (k, c @ EncodeToMemory (bareBlock b))
      else (case pkcs8Block lib b of Inl e \<Rightarrow> Inl e | Inr kb \<Rightarrow> Inr (k @ EncodeToMemory kb, c)))"
  by (auto simp: pkcs12Step_def isCert_def bareBlock_def pkcs8Block_def rbind_def split: sum.splits)

text \<open>The loop is the conversion of the keys beside the collection of the certificates.\<close>

lemma pkcs12_fold:
  "foldE (pkcs12Step lib) (k, c) bs =
     (case mapE (pkcs8Block lib) (filter (\<lambda>b. \<not> isCert b) bs) of
        Inl e \<Rightarrow> Inl e
      | Inr ks \<Rightarrow> Inr (k @ pemText ks, c @ pemText (map bareBlock (filter isCert bs))))"
  by (induction bs arbitrary: k c) (auto simp: pkcs12Step_eq split: sum.splits)

lemma pkcs8Block_good:
  assumes "pkcs8Block lib b = Inr k" "plainType (pemType b)" "\<not> isCert b"
  shows "goodBlock k \<and> \<not> isCert k"
  using assms by (auto simp: pkcs8Block_def result_simps goodBlock_def plainType_def isCert_def)

lemma mapE_pkcs8Block:
  "mapE (pkcs8Block lib) bs = Inr ks \<Longrightarrow> (\<And>b. b \<in> set bs \<Longrightarrow> plainType (pemType b) \<and> \<not> isCert b) \<Longrightarrow>
   k \<in> set ks \<Longrightarrow> goodBlock k \<and> \<not> isCert k"
proof (induction bs arbitrary: ks)
  case (Cons b bs)
  then show ?case using pkcs8Block_good[of lib b] by (auto split: sum.splits)
qed simp

lemma goodBlock_bareBlock:
  "plainType (pemType b) \<Longrightarrow> goodBlock (bareBlock b)" "isCert (bareBlock b) = isCert b"
  by (simp_all add: goodBlock_def bareBlock_def plainType_def isCert_def)

lemma splitCertAndKey_parts:
  assumes "\<forall>k\<in>set ks. goodBlock k \<and> \<not> isCert k" "\<forall>c\<in>set cs. goodBlock c \<and> isCert c"
  shows "splitCertAndKey (pemText ks @ pemText cs) = (pemText cs, pemText ks)"
proof -
  have f: "filter isCert (ks @ cs) = cs" "filter (\<lambda>b. \<not> isCert b) (ks @ cs) = ks"
    using assms by (simp_all add: filter_empty_conv)
  have "splitLoop (pemText (ks @ cs)) [] [] =
      ([] @ pemText (filter isCert (ks @ cs)), [] @ pemText (filter (\<lambda>b. \<not> isCert b) (ks @ cs)))"
    by (rule splitLoop_pemText) (use assms in auto)
  then show ?thesis unfolding f by (simp add: splitCertAndKey_def)
qed

section \<open>Properties\<close>

text \<open>
  Property C24. Splitting a PEM text of any number of blocks without headers, in any order, gives
  exactly its certificate blocks, in order, as the certificate part and exactly the other blocks,
  in order, as the key part.
\<close>

theorem splitCertAndKey_exact:
  assumes "\<And>b. b \<in> set bs \<Longrightarrow> goodBlock b"
  shows "splitCertAndKey (pemText bs) =
    (pemText (filter isCert bs), pemText (filter (\<lambda>b. \<not> isCert b) bs))"
  using splitLoop_pemText[OF assms, where c = "[]" and k = "[]"] by (simp add: splitCertAndKey_def)

text \<open>
  The certificate part of a converted PFX: chain construction, when it is on, only permutes the
  certificates.
\<close>

lemma chained_certs:
  assumes ok: "(if chain then fetchCertChains parse (pemText bs) else Inr (pemText bs)) = Inr out"
    and good: "\<forall>b\<in>set bs. goodBlock b \<and> isCert b"
    and raw: "\<And>d c. parse d = Inr (Some c) \<Longrightarrow> Raw c = d"
  shows "\<exists>certs. out = pemText certs \<and> mset certs = mset bs \<and> (\<not> chain \<longrightarrow> certs = bs)"
proof (cases "chain \<and> out \<noteq> pemText bs")
  case True
  with ok fetchCertChains_result[of parse "pemText bs" out] obtain cs ch where
    cs: "parseNodes parse (pemText bs) [] = Inr (map newNode cs)" and
    ch: "out = encodeCerts ch" "mset ch = mset cs" by auto
  have "map newNode cs = map newNode cs' \<Longrightarrow> cs = cs'" for cs'
    by (rule map_injective) (auto simp: inj_def newNode_def)
  then have "readAs parse bs cs"
    using cs good pemBlocks_encoded[of bs] by (auto simp: parseNodes_Inr pemText_def)
  then have "list_all2 (\<lambda>b c. parse (pemBytes b) = Inr (Some c)) bs cs" by (simp add: readAs_def)
  then have "map (\<lambda>c. certBlock (Raw c)) cs = bs" using good
  proof (induction rule: list_all2_induct)
    case (Cons b bs c cs)
    then have "Raw c = pemBytes b" using raw by simp
    then have "certBlock (Raw c) = b" using Cons.prems by (simp add: certBlock_def goodBlock_def isCert_def)
    with Cons show ?case by simp
  qed simp
  then have "mset (map (\<lambda>c. certBlock (Raw c)) ch) = mset bs" using ch(2) by (metis mset_map)
  then show ?thesis using ch(1) True by (auto simp: encodeCerts_pemText)
next
  case False
  then have "out = pemText bs" using ok by (cases chain) auto
  then show ?thesis by blast
qed

text \<open>
  Property C25. A PFX converted to PEM splits back into its parts, with or without the
  construction of the chain: the key file holds every private key of the PFX in PKCS#8 form, in
  the order of the PFX, and no certificate; the certificate file holds every certificate of the PFX,
  each as often as the PFX has it, with headers removed, and no key; without chain construction the
  certificates also keep their order. The raw bytes of a parsed certificate are the bytes that were parsed.
\<close>

theorem decodePKCS12_split:
  assumes dec: "decodePKCS12 lib chain val = Inr content"
    and raw: "base64_DecodeString val = Inr pfx" and pem: "ToPEM lib pfx = Inr blocks"
    and plain: "\<And>b. b \<in> set blocks \<Longrightarrow> plainType (pemType b)"
    and parsed: "\<And>d c. ParseCertificate lib d = Inr (Some c) \<Longrightarrow> Raw c = d"
  shows "\<exists>keys certs. mapE (pkcs8Block lib) (filter (\<lambda>b. \<not> isCert b) blocks) = Inr keys \<and>
    mset certs = mset (map bareBlock (filter isCert blocks)) \<and>
    (\<not> chain \<longrightarrow> certs = map bareBlock (filter isCert blocks)) \<and>
    splitCertAndKey content = (pemText certs, pemText keys)"
proof -
  let ?cs = "map bareBlock (filter isCert blocks)"
  from dec raw pem obtain ks out where ks: "mapE (pkcs8Block lib) (filter (\<lambda>b. \<not> isCert b) blocks) = Inr ks"
    and out: "(if chain then fetchCertChains (ParseCertificate lib) (pemText ?cs) else Inr (pemText ?cs)) = Inr out"
    and content: "content = pemText ks @ out"
    by (auto simp: decodePKCS12_def pkcs12_fold result_simps split: sum.splits)
  have gc: "\<forall>b\<in>set ?cs. goodBlock b \<and> isCert b" using plain by (auto simp: goodBlock_bareBlock)
  from chained_certs[OF out gc parsed] obtain certs where certs: "out = pemText certs" "mset certs = mset ?cs"
    "\<not> chain \<longrightarrow> certs = ?cs" by blast
  have gk: "\<forall>k\<in>set ks. goodBlock k \<and> \<not> isCert k"
    using mapE_pkcs8Block[OF ks] plain by auto
  have "\<forall>b\<in>set certs. goodBlock b \<and> isCert b" using gc mset_eq_setD[OF certs(2)] by blast
  from splitCertAndKey_parts[OF gk this] show ?thesis using ks content certs by blast
qed

text \<open>
  Property C26. With chain construction on, a PFX that holds one proper chain comes out with its
  private keys first and the certificates in the order leaf, intermediates, root, in whatever
  order the PFX held them.
\<close>

theorem decodePKCS12_chain:
  assumes raw: "base64_DecodeString val = Inr pfx" and pem: "ToPEM lib pfx = Inr blocks"
    and keys: "mapE (pkcs8Block lib) (filter (\<lambda>b. \<not> isCert b) blocks) = Inr keys"
    and certs: "map bareBlock (filter isCert blocks) = map (\<lambda>c. certBlock (Raw c)) cs"
    and chain: "properChain chain" "mset cs = mset chain"
    and parse: "\<And>c. c \<in> set chain \<Longrightarrow> ParseCertificate lib (Raw c) = Inr (Some c)"
  shows "decodePKCS12 lib True val = Inr (pemText keys @ encodeCerts chain)"
proof -
  have "fetchCertChains (ParseCertificate lib) (encodeCerts cs) = Inr (encodeCerts chain)"
    by (rule fetchCertChains_proper[OF chain parse])
  with keys raw pem certs show ?thesis
    by (simp add: decodePKCS12_def pkcs12_fold encodeCerts_pemText)
qed

section \<open>Witnesses\<close>

text \<open>A library in which a private key is its own bytes and every format is accepted as PKCS#1.\<close>

definition toyBlocks :: "pemBlock list" where
  "toyBlocks =
     [\<lparr>pemType = CertificateType, pemHeaders = [(''localKeyId'', ''01'')], pemBytes = ''R''\<rparr>,
      \<lparr>pemType = ''PRIVATE KEY'', pemHeaders = [(''localKeyId'', ''01'')], pemBytes = ''k''\<rparr>,
      \<lparr>pemType = CertificateType, pemHeaders = [], pemBytes = ''L''\<rparr>,
      \<lparr>pemType = CertificateType, pemHeaders = [], pemBytes = ''I''\<rparr>]"

definition toyLib :: "string cryptoLib" where
  "toyLib = \<lparr>ToPEM = (\<lambda>b. if b = [] then Inr toyBlocks else Inl (External ''pkcs12: error reading P12 data'')),
     ParsePKCS1PrivateKey = (\<lambda>b. Inl (External ''not pkcs1'')),
     ParsePKCS8PrivateKey = (\<lambda>b. Inr b),
     ParseECPrivateKey = (\<lambda>b. Inl (External ''not ec'')),
     MarshalPKCS8PrivateKey = (\<lambda>k. Inr (''8'' @ k)),
     ParseCertificate = toyParse\<rparr>"

lemma toy_keys:
  "mapE (pkcs8Block toyLib) (filter (\<lambda>b. \<not> isCert b) toyBlocks) =
   Inr [\<lparr>pemType = ''PRIVATE KEY'', pemHeaders = [], pemBytes = ''8k''\<rparr>]"
  by (simp add: toyBlocks_def toyLib_def isCert_def pkcs8Block_def parsePrivateKey_def CertificateType_def)

lemma toy_raw: "base64_DecodeString [] = Inr []" "ToPEM toyLib [] = Inr toyBlocks"
  by (simp_all add: base64_DecodeString_def toyLib_def)

theorem splitCertAndKey_exact_witness:
  "splitCertAndKey (pemText (map bareBlock toyBlocks)) =
   (pemText (filter isCert (map bareBlock toyBlocks)),
    pemText (filter (\<lambda>b. \<not> isCert b) (map bareBlock toyBlocks)))"
  by (rule splitCertAndKey_exact)
    (auto simp: toyBlocks_def bareBlock_def goodBlock_def CertificateType_def)

text \<open>With chain construction on, as is the default.\<close>

theorem decodePKCS12_split_witness:
  "\<exists>content keys certs. decodePKCS12 toyLib True [] = Inr content \<and>
     mapE (pkcs8Block toyLib) (filter (\<lambda>b. \<not> isCert b) toyBlocks) = Inr keys \<and>
     mset certs = mset (map bareBlock (filter isCert toyBlocks)) \<and>
     splitCertAndKey content = (pemText certs, pemText keys)"
proof -
  have "pemText (map bareBlock (filter isCert toyBlocks)) = encodeCerts [rootCert, leafCert, interCert]"
    by (simp add: encodeCerts_pemText toy_defs toyBlocks_def isCert_def bareBlock_def certBlock_def CertificateType_def)
  moreover have "fetchCertChains toyParse (encodeCerts [rootCert, leafCert, interCert]) =
      Inr (encodeCerts [leafCert, interCert, rootCert])"
    by (rule fetchCertChains_proper[OF toy_proper]) (auto simp: toy_defs)
  ultimately obtain content where c: "decodePKCS12 toyLib True [] = Inr content"
    using toy_keys toy_raw by (simp add: decodePKCS12_def pkcs12_fold) (simp add: toyLib_def)
  have plain: "plainType (pemType b)" if "b \<in> set toyBlocks" for b
    using that by (auto simp: toyBlocks_def plainType_def CertificateType_def)
  have parsed: "Raw x = d" if "ParseCertificate toyLib d = Inr (Some x)" for d x
    using that by (auto simp: toyLib_def toyParse_def split: option.splits if_splits)
  from decodePKCS12_split[OF c toy_raw plain parsed] c show ?thesis by blast
qed

theorem decodePKCS12_chain_witness:
  "decodePKCS12 toyLib True [] =
   Inr (pemText [\<lparr>pemType = ''PRIVATE KEY'', pemHeaders = [], pemBytes = ''8k''\<rparr>] @
        encodeCerts [leafCert, interCert, rootCert])"
  by (rule decodePKCS12_chain[OF toy_raw toy_keys _ toy_proper, where cs = "[rootCert, leafCert, interCert]"])
    (auto simp: toy_defs toyBlocks_def toyLib_def isCert_def bareBlock_def certBlock_def CertificateType_def)

end
