(* ===== verification/KeyVaultClient.thy ===== *)
theory KeyVaultClient
  imports KeyVaultTypes
begin

text \<open>
  \<open>pkg/provider/keyvault.go\<close>: the Key Vault client over the Azure SDK. The SDK is a record of
  functions; they may read and change the vault, whose state \<open>'v\<close> is threaded through every
  call, so nothing is assumed of what two calls have in common. \<open>'h\<close> is the type of what the
  SDK hands out, clients and pagers, and \<open>'cred\<close> that of a credential. \<open>NextPage\<close> changes
  the pager it is called on, so it returns the pager with the page. Nothing says that a pager
  ends: the loop over it is a partial function. Go's nil pointers are \<open>None\<close>.
\<close>

section \<open>Data of the SDK that the code reads\<close>

record secretBundle =
  sbValue :: "string option"
  sbID :: "string option"
  sbKid :: "string option"
  sbContentType :: "string option"

record jsonWebKey =
  jwkKID :: "string option"
  jwkKty :: "string option"
  jwkN :: bytes
  jwkE :: bytes
  jwkX :: bytes
  jwkY :: bytes
  jwkCrv :: "string option"

record keyBundle =
  kbKey :: "jsonWebKey option"

record certificateBundle =
  cbCER :: "bytes option"
  cbID :: "string option"

record itemAttributes =
  attrEnabled :: "bool option"
  attrCreated :: "int option"

record listItem =
  itemAttrs :: "itemAttributes option"
  itemID :: "string option"

type_synonym page = "listItem option list"

record ('v, 'cred, 'h) kvSdk =
  NewSecretsClient :: "string \<Rightarrow> 'cred \<Rightarrow> 'h result"
  NewKeysClient :: "string \<Rightarrow> 'cred \<Rightarrow> 'h result"
  NewCertificatesClient :: "string \<Rightarrow> 'cred \<Rightarrow> 'h result"
  SdkGetSecret :: "'h \<Rightarrow> string \<Rightarrow> string \<Rightarrow> ('v, secretBundle) io"
  SdkGetKey :: "'h \<Rightarrow> string \<Rightarrow> string \<Rightarrow> ('v, keyBundle) io"
  SdkGetCertificate :: "'h \<Rightarrow> string \<Rightarrow> string \<Rightarrow> ('v, certificateBundle) io"
  NewListSecretVersionsPager :: "'h \<Rightarrow> string \<Rightarrow> 'h"
  NewListKeyVersionsPager :: "'h \<Rightarrow> string \<Rightarrow> 'h"
  NewListCertificateVersionsPager :: "'h \<Rightarrow> string \<Rightarrow> 'h"
  More :: "'h \<Rightarrow> bool"
  NextPage :: "'h \<Rightarrow> 'v \<Rightarrow> page result \<times> 'h \<times> 'v"
  SecretIDVersion :: "string \<Rightarrow> string"
  KeyIDVersion :: "string \<Rightarrow> string"
  CertificateIDVersion :: "string \<Rightarrow> string"

section \<open>The client\<close>

record 'h kvClient =
  secretsClient :: 'h
  keysClient :: 'h
  certsClient :: 'h

definition NewClient :: "('v, 'cred, 'h) kvSdk \<Rightarrow> 'cred \<Rightarrow> string \<Rightarrow> 'h kvClient result" where
  "NewClient sdk cred vaultURI =
     rbind (NewSecretsClient sdk vaultURI cred) (\<lambda>secrets.
     rbind (NewKeysClient sdk vaultURI cred) (\<lambda>keys.
     rbind (NewCertificatesClient sdk vaultURI cred) (\<lambda>certs.
     Inr \<lparr>secretsClient = secrets, keysClient = keys, certsClient = certs\<rparr>)))"

definition GetSecret :: "('v, 'cred, 'h) kvSdk \<Rightarrow> 'h kvClient \<Rightarrow> string \<Rightarrow> string \<Rightarrow> ('v, secretBundle) io" where
  "GetSecret sdk c name version = SdkGetSecret sdk (secretsClient c) name version"

definition GetKey :: "('v, 'cred, 'h) kvSdk \<Rightarrow> 'h kvClient \<Rightarrow> string \<Rightarrow> string \<Rightarrow> ('v, keyBundle) io" where
  "GetKey sdk c name version = SdkGetKey sdk (keysClient c) name version"

definition GetCertificate ::
  "('v, 'cred, 'h) kvSdk \<Rightarrow> 'h kvClient \<Rightarrow> string \<Rightarrow> string \<Rightarrow> ('v, certificateBundle) io" where
  "GetCertificate sdk c name version = SdkGetCertificate sdk (certsClient c) name version"

definition nilDeref :: go_error where
  "nilDeref = Panic ''invalid memory address or nil pointer dereference''"

text \<open>
  One item of a page: skipped without attributes or when disabled, and otherwise its version,
  created at the Unix epoch when the vault gives no time. A nil item or a nil identifier is
  dereferenced.
\<close>

definition versionStep ::
  "(string \<Rightarrow> string) \<Rightarrow> keyVaultObjectVersionList \<Rightarrow> listItem option \<Rightarrow> keyVaultObjectVersionList result" where
  "versionStep idVersion versions item =
     (case item of
        None \<Rightarrow> Inl nilDeref
      | Some it \<Rightarrow>
          (case itemAttrs it of
             None \<Rightarrow> Inr versions
           | Some attrs \<Rightarrow>
               if attrEnabled attrs = Some False then Inr versions
               else (case itemID it of
                   None \<Rightarrow> Inl nilDeref
                 | Some ident \<Rightarrow>
                     Inr (versions @
                       [\<lparr>kvVersion = idVersion ident,
                         kvCreated = (case attrCreated attrs of None \<Rightarrow> 0 | Some t \<Rightarrow> t)\<rparr>]))))"

definition pageStep ::
  "(string \<Rightarrow> string) \<Rightarrow> keyVaultObjectVersionList \<Rightarrow> page result \<Rightarrow> keyVaultObjectVersionList result" where
  "pageStep idVersion versions nextPage =
     rbind nextPage (\<lambda>items. foldE (versionStep idVersion) versions items)"

text \<open>
  \<open>for pager.More() { page, err := pager.NextPage(ctx); ... }\<close>. The loop asks for a page only
  while there are more and stops at the first error; \<open>None\<close> is a loop that never ends.
\<close>

partial_function (option) pagerLoop ::
  "('v, 'cred, 'h) kvSdk \<Rightarrow> (string \<Rightarrow> string) \<Rightarrow> 'h \<Rightarrow> keyVaultObjectVersionList \<Rightarrow> 'v \<Rightarrow>
   (keyVaultObjectVersionList result \<times> 'v) option" where
  "pagerLoop sdk idVersion pager versions v =
     (if More sdk pager then
        (case NextPage sdk pager v of (nextPage, pager', v') \<Rightarrow>
           (case pageStep idVersion versions nextPage of
              Inl e \<Rightarrow> Some (Inl e, v')
            | Inr versions' \<Rightarrow> pagerLoop sdk idVersion pager' versions' v'))
      else Some (Inr versions, v))"

declare pagerLoop.simps [code]

text \<open>
  A call that never returns gives its callers nothing to handle, no value and no error. Like a
  panic it goes through all of them, and the state beside it is one that nobody observes.
\<close>

definition noReturn :: go_error where
  "noReturn = Panic ''the call does not return''"

definition orNoReturn :: "'v \<Rightarrow> ('a result \<times> 'v) option \<Rightarrow> 'a result \<times> 'v" where
  "orNoReturn v outcome = (case outcome of None \<Rightarrow> (Inl noReturn, v) | Some r \<Rightarrow> r)"

definition GetSecretVersions ::
  "('v, 'cred, 'h) kvSdk \<Rightarrow> 'h kvClient \<Rightarrow> string \<Rightarrow> ('v, keyVaultObjectVersionList) io" where
  "GetSecretVersions sdk c name v =
     orNoReturn v (pagerLoop sdk (SecretIDVersion sdk) (NewListSecretVersionsPager sdk (secretsClient c) name) [] v)"

definition GetKeyVersions ::
  "('v, 'cred, 'h) kvSdk \<Rightarrow> 'h kvClient \<Rightarrow> string \<Rightarrow> ('v, keyVaultObjectVersionList) io" where
  "GetKeyVersions sdk c name v =
     orNoReturn v (pagerLoop sdk (KeyIDVersion sdk) (NewListKeyVersionsPager sdk (keysClient c) name) [] v)"

definition GetCertificateVersions ::
  "('v, 'cred, 'h) kvSdk \<Rightarrow> 'h kvClient \<Rightarrow> string \<Rightarrow> ('v, keyVaultObjectVersionList) io" where
  "GetCertificateVersions sdk c name v =
     orNoReturn v (pagerLoop sdk (CertificateIDVersion sdk) (NewListCertificateVersionsPager sdk (certsClient c) name) [] v)"

section \<open>Specification\<close>

text \<open>The versions of an item: none for a disabled one.\<close>

definition enabledVersion :: "(string \<Rightarrow> string) \<Rightarrow> listItem \<Rightarrow> keyVaultObjectVersionList" where
  "enabledVersion idVersion it =
     (case (itemAttrs it, itemID it) of
        (Some attrs, Some ident) \<Rightarrow>
          if attrEnabled attrs = Some False then []
          else [\<lparr>kvVersion = idVersion ident,
                 kvCreated = (case attrCreated attrs of None \<Rightarrow> 0 | Some t \<Rightarrow> t)\<rparr>]
      | _ \<Rightarrow> [])"

text \<open>An item that the service documents: an identifier is always there.\<close>

definition wellFormedItem :: "listItem option \<Rightarrow> bool" where
  "wellFormedItem item = (case item of None \<Rightarrow> False | Some it \<Rightarrow> itemID it \<noteq> None)"

lemma foldE_collect:
  assumes "\<And>acc x. x \<in> set xs \<Longrightarrow> f acc x = Inr (acc @ g x)"
  shows "foldE f acc xs = Inr (acc @ concat (map g xs))"
  using assms by (induction xs arbitrary: acc) auto

lemma versionStep_wellFormed:
  "wellFormedItem item \<Longrightarrow> versionStep idVersion acc item = Inr (acc @ enabledVersion idVersion (the item))"
  by (auto simp: wellFormedItem_def versionStep_def enabledVersion_def split: option.splits)

lemma versionStep_eq_Inr:
  "versionStep idVersion acc item = Inr acc' \<Longrightarrow>
   \<exists>it. item = Some it \<and> acc' = acc @ enabledVersion idVersion it"
  by (auto simp: versionStep_def enabledVersion_def split: option.splits if_splits)

lemma foldE_versionStep:
  "foldE (versionStep idVersion) acc items = Inr acc' \<Longrightarrow>
   \<exists>its. items = map Some its \<and> acc' = acc @ concat (map (enabledVersion idVersion) its)"
proof (induction items arbitrary: acc)
  case (Cons i items)
  then obtain acc1 where "versionStep idVersion acc i = Inr acc1"
    and rest: "foldE (versionStep idVersion) acc1 items = Inr acc'" by (auto split: sum.splits)
  then obtain it where it: "i = Some it" "acc1 = acc @ enabledVersion idVersion it"
    using versionStep_eq_Inr by blast
  from Cons.IH[OF rest] obtain its where "items = map Some its"
    "acc' = acc1 @ concat (map (enabledVersion idVersion) its)" by blast
  with it show ?case by (intro exI[of _ "it # its"]) simp
qed simp

lemma enabledVersion_elem:
  "x \<in> set (enabledVersion idVersion it) \<Longrightarrow>
   \<exists>attrs ident. itemAttrs it = Some attrs \<and> attrEnabled attrs \<noteq> Some False \<and> itemID it = Some ident \<and>
     kvVersion x = idVersion ident"
  by (cases "itemAttrs it"; cases "itemID it") (auto simp: enabledVersion_def split: if_splits)

text \<open>The pages that a pager gives until it has no more or a request for one fails.\<close>

inductive drains ::
  "('v, 'cred, 'h) kvSdk \<Rightarrow> 'h \<Rightarrow> 'v \<Rightarrow> page result list \<Rightarrow> 'v \<Rightarrow> bool" for sdk where
  drained: "\<not> More sdk pager \<Longrightarrow> drains sdk pager v [] v"
| pageFailed: "More sdk pager \<Longrightarrow> NextPage sdk pager v = (Inl e, pager', v') \<Longrightarrow>
    drains sdk pager v [Inl e] v'"
| pageRead: "More sdk pager \<Longrightarrow> NextPage sdk pager v = (Inr items, pager', v') \<Longrightarrow>
    drains sdk pager' v' pages v'' \<Longrightarrow> drains sdk pager v (Inr items # pages) v''"

inductive_cases drains_NilE: "drains sdk pager v [] v'"
inductive_cases drains_ConsE: "drains sdk pager v (p # pages) v'"

text \<open>The versions of all pages, or the error of the page that failed.\<close>

definition allEnabled :: "(string \<Rightarrow> string) \<Rightarrow> page result list \<Rightarrow> keyVaultObjectVersionList result" where
  "allEnabled idVersion pages =
     rbind (mapE id pages) (\<lambda>ps. Inr (concat (map (\<lambda>i. enabledVersion idVersion (the i)) (concat ps))))"

section \<open>The loop over a pager\<close>

lemma pageStep_wellFormed:
  assumes "\<And>item. item \<in> set items \<Longrightarrow> wellFormedItem item"
  shows "pageStep idVersion acc (Inr items) =
    Inr (acc @ concat (map (\<lambda>i. enabledVersion idVersion (the i)) items))"
  unfolding pageStep_def rbind_simps
  by (rule foldE_collect) (use assms in \<open>auto intro: versionStep_wellFormed\<close>)

lemma pagerLoop_drains:
  assumes "drains sdk pager v pages v'"
    and "\<And>p item. Inr p \<in> set pages \<Longrightarrow> item \<in> set p \<Longrightarrow> wellFormedItem item"
  shows "pagerLoop sdk idVersion pager acc v =
    Some (rbind (allEnabled idVersion pages) (\<lambda>vs. Inr (acc @ vs)), v')"
  using assms
proof (induction arbitrary: acc rule: drains.induct)
  case (pageRead pager v items pager' v' pages v'')
  let ?vs = "concat (map (\<lambda>i. enabledVersion idVersion (the i)) items)"
  have "pageStep idVersion acc (Inr items) = Inr (acc @ ?vs)"
    by (rule pageStep_wellFormed) (use pageRead.prems in auto)
  moreover have "pagerLoop sdk idVersion pager' (acc @ ?vs) v' =
      Some (rbind (allEnabled idVersion pages) (\<lambda>vs. Inr ((acc @ ?vs) @ vs)), v'')"
    by (rule pageRead.IH) (use pageRead.prems in auto)
  ultimately show ?case using pageRead.hyps
    by (subst pagerLoop.simps) (simp add: allEnabled_def rbind_def split: sum.splits)
qed (subst pagerLoop.simps, simp add: allEnabled_def pageStep_def)+

lemma pagerLoop_Inr_drains:
  assumes "pagerLoop sdk idVersion pager acc v = Some r"
  shows "\<forall>vs v'. r = (Inr vs, v') \<longrightarrow> (\<exists>itss. drains sdk pager v (map (\<lambda>its. Inr (map Some its)) itss) v' \<and>
    vs = acc @ concat (map (enabledVersion idVersion) (concat itss)))"
proof (rule pagerLoop.raw_induct[OF _ assms], intro allI impI)
  fix loop sdk idVersion pager acc v r vs v'
  assume IH: "\<And>sdk idVersion pager acc v r. loop sdk idVersion pager acc v = Some r \<Longrightarrow>
      \<forall>vs v'. r = (Inr vs, v') \<longrightarrow> (\<exists>itss. drains sdk pager v (map (\<lambda>its. Inr (map Some its)) itss) v' \<and>
        vs = acc @ concat (map (enabledVersion idVersion) (concat itss)))"
    and eq: "(if More sdk pager then
        (case NextPage sdk pager v of (nextPage, pager', v') \<Rightarrow>
           (case pageStep idVersion acc nextPage of
              Inl e \<Rightarrow> Some (Inl e, v') | Inr acc' \<Rightarrow> loop sdk idVersion pager' acc' v'))
      else Some (Inr acc, v)) = Some r"
    and r: "r = (Inr vs, v')"
  show "\<exists>itss. drains sdk pager v (map (\<lambda>its. Inr (map Some its)) itss) v' \<and>
      vs = acc @ concat (map (enabledVersion idVersion) (concat itss))"
  proof (cases "More sdk pager")
    case True
    then obtain page pager1 v1 acc1 where n: "NextPage sdk pager v = (page, pager1, v1)"
      and st: "pageStep idVersion acc page = Inr acc1" and l: "loop sdk idVersion pager1 acc1 v1 = Some r"
      using eq r by (auto split: prod.splits sum.splits)
    obtain items where "page = Inr items" "foldE (versionStep idVersion) acc items = Inr acc1"
      using st by (auto simp: pageStep_def result_simps)
    then obtain its where its: "page = Inr (map Some its)"
      "acc1 = acc @ concat (map (enabledVersion idVersion) its)"
      using foldE_versionStep by blast
    obtain itss where "drains sdk pager1 v1 (map (\<lambda>its. Inr (map Some its)) itss) v'"
      "vs = acc1 @ concat (map (enabledVersion idVersion) (concat itss))"
      using IH[OF l] r by blast
    then show ?thesis using True n its
      by (intro exI[of _ "its # itss"]) (auto intro: drains.intros)
  next
    case False
    then show ?thesis using eq r by (intro exI[of _ "[]"]) (auto intro: drained)
  qed
qed

lemma orNoReturn_returns: "\<exists>r. outcome = Some r \<Longrightarrow> \<exists>r. outcome = Some r \<and> orNoReturn v outcome = r"
  by (auto simp: orNoReturn_def)

text \<open>When every page that is read leaves fewer pages to read, the loop ends.\<close>

lemma pagerLoop_returns:
  assumes "\<And>p s items p' s'. More sdk p \<Longrightarrow> NextPage sdk p s = (Inr items, p', s') \<Longrightarrow>
    remaining p' s' < (remaining p s :: nat)"
  shows "\<exists>r. pagerLoop sdk idVersion pager acc v = Some r"
proof (induction "remaining pager v" arbitrary: pager acc v rule: less_induct)
  case less
  obtain page pager' v' where n: "NextPage sdk pager v = (page, pager', v')" by (cases "NextPage sdk pager v")
  show ?case
  proof (cases "More sdk pager \<and> (\<exists>items. page = Inr items)")
    case True
    then have "\<exists>r. pagerLoop sdk idVersion pager' acc' v' = Some r" for acc'
      using less assms n by blast
    then show ?thesis using n
      by (subst pagerLoop.simps) (auto split: sum.splits)
  next
    case False
    then show ?thesis using n
      by (subst pagerLoop.simps) (cases page; auto simp: pageStep_def)
  qed
qed

text \<open>
  Without such a bound the loop may run forever: it does on a pager that always has more and
  never fails, as one whose links to the next page form a cycle.
\<close>

lemma pagerLoop_diverges:
  assumes "\<And>p s. reached p s \<Longrightarrow> More sdk p \<and> (\<exists>p' s'. NextPage sdk p s = (Inr [], p', s') \<and> reached p' s')"
    and "reached pager v"
  shows "pagerLoop sdk idVersion pager acc v = None"
proof (rule ccontr)
  assume "pagerLoop sdk idVersion pager acc v \<noteq> None"
  then obtain r where r: "pagerLoop sdk idVersion pager acc v = Some r" by blast
  have "sdk = sdk \<longrightarrow> \<not> reached pager v"
  proof (rule pagerLoop.raw_induct[where P = "\<lambda>sdk' _ pager _ v _. sdk' = sdk \<longrightarrow> \<not> reached pager v", OF _ r], intro impI)
    fix loop sdk' idVersion pager acc v r
    assume IH: "\<And>sdk' idVersion pager acc v r. loop sdk' idVersion pager acc v = Some r \<Longrightarrow>
        sdk' = sdk \<longrightarrow> \<not> reached pager v"
      and eq: "(if More sdk' pager then
          (case NextPage sdk' pager v of (nextPage, pager', v') \<Rightarrow>
             (case pageStep idVersion acc nextPage of
                Inl e \<Rightarrow> Some (Inl e, v') | Inr acc' \<Rightarrow> loop sdk' idVersion pager' acc' v'))
        else Some (Inr acc, v)) = Some r" and "sdk' = sdk"
    show "\<not> reached pager v"
    proof
      assume "reached pager v"
      with assms(1) obtain p' s' where "More sdk pager" "NextPage sdk pager v = (Inr [], p', s')" "reached p' s'"
        by blast
      then show False using eq IH \<open>sdk' = sdk\<close> by (auto simp: pageStep_def)
    qed
  qed
  with assms(2) show False by simp
qed

section \<open>Properties\<close>

text \<open>
  Property C33. Listing the versions of a secret, a key or a certificate ends whenever each page
  that is read leaves fewer pages to read: all three loops return, and the listing is what
  they return.
\<close>

theorem GetVersions_return:
  assumes "\<And>p s items p' s'. More sdk p \<Longrightarrow> NextPage sdk p s = (Inr items, p', s') \<Longrightarrow>
    remaining p' s' < (remaining p s :: nat)"
  shows "(\<exists>r. pagerLoop sdk (SecretIDVersion sdk) (NewListSecretVersionsPager sdk (secretsClient c) name) [] v = Some r \<and>
        GetSecretVersions sdk c name v = r) \<and>
    (\<exists>r. pagerLoop sdk (KeyIDVersion sdk) (NewListKeyVersionsPager sdk (keysClient c) name) [] v = Some r \<and>
        GetKeyVersions sdk c name v = r) \<and>
    (\<exists>r. pagerLoop sdk (CertificateIDVersion sdk) (NewListCertificateVersionsPager sdk (certsClient c) name) [] v = Some r \<and>
        GetCertificateVersions sdk c name v = r)"
  unfolding GetSecretVersions_def GetKeyVersions_def GetCertificateVersions_def
  by (intro conjI orNoReturn_returns pagerLoop_returns[where remaining = remaining] assms)

text \<open>
  Property C32. Listing the versions of a secret over any number of pages gives exactly the
  enabled versions of all pages in the order of the service, and an error of any page is
  returned instead of a partial list, with no page requested after it.
\<close>

theorem GetSecretVersions_enabled:
  assumes "drains sdk (NewListSecretVersionsPager sdk (secretsClient c) name) v pages v'"
    and "\<And>p item. Inr p \<in> set pages \<Longrightarrow> item \<in> set p \<Longrightarrow> wellFormedItem item"
  shows "GetSecretVersions sdk c name v =
    (rbind (mapE id pages)
       (\<lambda>ps. Inr (concat (map (\<lambda>i. enabledVersion (SecretIDVersion sdk) (the i)) (concat ps)))), v')"
  using pagerLoop_drains[OF assms(1), of "SecretIDVersion sdk" "[]"] assms(2)
  by (cases "mapE id pages") (simp_all add: GetSecretVersions_def orNoReturn_def allEnabled_def)

text \<open>
  No disabled version is ever listed, by the loop that the listings of secrets,
  keys and certificates share: a version in the result belongs to an item of some page whose
  attributes do not disable it.
\<close>

lemma listed_not_disabled:
  assumes "pagerLoop sdk idVersion pager [] v = Some (Inr vs, v')" "x \<in> set vs"
  shows "\<exists>pages items it attrs ident. drains sdk pager v pages v' \<and> Inr items \<in> set pages \<and>
    Some it \<in> set items \<and> itemAttrs it = Some attrs \<and> attrEnabled attrs \<noteq> Some False \<and>
    itemID it = Some ident \<and> kvVersion x = idVersion ident"
proof -
  obtain itss where itss: "drains sdk pager v (map (\<lambda>its. Inr (map Some its)) itss) v'"
    "vs = concat (map (enabledVersion idVersion) (concat itss))"
    using pagerLoop_Inr_drains[OF assms(1)] by auto
  then obtain its it where it: "its \<in> set itss" "it \<in> set its" "x \<in> set (enabledVersion idVersion it)"
    using assms(2) by auto
  then have "Inr (map Some its) \<in> set (map (\<lambda>its. Inr (map Some its)) itss)" "Some it \<in> set (map Some its)"
    by auto
  with enabledVersion_elem[OF it(3)] itss(1) show ?thesis by blast
qed

section \<open>Witnesses\<close>

text \<open>
  A vault with one secret of three listed versions on two pages, one of them disabled; a pager
  is the number of pages left.
\<close>

definition toyItem :: "bool option \<Rightarrow> int \<Rightarrow> string \<Rightarrow> listItem option" where
  "toyItem en t ident = Some \<lparr>itemAttrs = Some \<lparr>attrEnabled = en, attrCreated = Some t\<rparr>, itemID = Some ident\<rparr>"

definition toyPages :: "page result list" where
  "toyPages = [Inr [toyItem (Some True) 1 ''v1'', toyItem (Some False) 3 ''v3''], Inr [toyItem None 2 ''v2'']]"

definition toyGetSecret :: "'h \<Rightarrow> string \<Rightarrow> string \<Rightarrow> (unit, secretBundle) io" where
  "toyGetSecret h n v s =
     (Inr \<lparr>sbValue = Some ''YWJj'', sbID = Some ''v1'', sbKid = None, sbContentType = None\<rparr>, s)"

definition toyKvSdk :: "(unit, unit, nat) kvSdk" where
  "toyKvSdk = \<lparr>
     NewSecretsClient = (\<lambda>u c. Inr 0), NewKeysClient = (\<lambda>u c. Inr 0), NewCertificatesClient = (\<lambda>u c. Inr 0),
     SdkGetSecret = toyGetSecret,
     SdkGetKey = (\<lambda>h n v s. (Inl (External ''404''), s)),
     SdkGetCertificate = (\<lambda>h n v s. (Inl (External ''404''), s)),
     NewListSecretVersionsPager = (\<lambda>h n. 2),
     NewListKeyVersionsPager = (\<lambda>h n. 2), NewListCertificateVersionsPager = (\<lambda>h n. 2),
     More = (\<lambda>p. 0 < p), NextPage = (\<lambda>p s. (toyPages ! (2 - p), p - 1, s)),
     SecretIDVersion = id, KeyIDVersion = id, CertificateIDVersion = id\<rparr>"

definition toyClient :: "nat kvClient" where
  "toyClient = \<lparr>secretsClient = 0, keysClient = 0, certsClient = 0\<rparr>"

lemma toyKvSdk_drains: "drains toyKvSdk 2 () toyPages ()"
proof -
  have "drains toyKvSdk 0 () [] ()" by (rule drained) (simp add: toyKvSdk_def)
  from pageRead[OF _ _ this, of 1] have "drains toyKvSdk 1 () [Inr [toyItem None 2 ''v2'']] ()"
    by (simp add: toyKvSdk_def toyPages_def)
  from pageRead[OF _ _ this, of 2] show ?thesis by (simp add: toyKvSdk_def toyPages_def)
qed

theorem GetSecretVersions_enabled_witness:
  "GetSecretVersions toyKvSdk toyClient ''s'' () =
   (Inr [\<lparr>kvVersion = ''v1'', kvCreated = 1\<rparr>, \<lparr>kvVersion = ''v2'', kvCreated = 2\<rparr>], ())"
proof -
  have "GetSecretVersions toyKvSdk toyClient ''s'' () =
      (rbind (mapE id toyPages)
         (\<lambda>ps. Inr (concat (map (\<lambda>i. enabledVersion (SecretIDVersion toyKvSdk) (the i)) (concat ps)))), ())"
  proof (rule GetSecretVersions_enabled)
    show "drains toyKvSdk (NewListSecretVersionsPager toyKvSdk (secretsClient toyClient) ''s'') () toyPages ()"
      using toyKvSdk_drains by (simp add: toyKvSdk_def)
  qed (auto simp: toyPages_def toyItem_def wellFormedItem_def)
  then show ?thesis by (simp add: toyPages_def toyItem_def enabledVersion_def toyKvSdk_def)
qed

theorem GetVersions_return_witness:
  "\<exists>r. pagerLoop toyKvSdk id 2 [] () = Some r \<and> GetKeyVersions toyKvSdk toyClient ''k'' () = r"
  using GetVersions_return[of toyKvSdk "\<lambda>p s. p" toyClient "''k''" "()"] by (simp add: toyKvSdk_def)

lemma listed_not_disabled_witness:
  "\<exists>pages items it attrs ident. drains toyKvSdk 2 () pages () \<and> Inr items \<in> set pages \<and> Some it \<in> set items \<and>
    itemAttrs it = Some attrs \<and> attrEnabled attrs \<noteq> Some False \<and> itemID it = Some ident \<and> ''v2'' = ident"
proof -
  have "pagerLoop toyKvSdk id 2 [] () =
      Some (Inr [\<lparr>kvVersion = ''v1'', kvCreated = 1\<rparr>, \<lparr>kvVersion = ''v2'', kvCreated = 2\<rparr>], ())"
    by (subst pagerLoop.simps, simp add: toyKvSdk_def toyPages_def toyItem_def pageStep_def versionStep_def)+
  from listed_not_disabled[OF this, of "\<lparr>kvVersion = ''v2'', kvCreated = 2\<rparr>"] show ?thesis by simp
qed

text \<open>A pager whose next page is always itself is never listed to the end.\<close>

lemma cyclic_pager_diverges:
  "GetSecretVersions (toyKvSdk\<lparr>More := (\<lambda>p. True), NextPage := (\<lambda>p s. (Inr [], p, s))\<rparr>) toyClient ''s'' () =
   (Inl noReturn, ())"
  unfolding GetSecretVersions_def
  by (subst pagerLoop_diverges[of "\<lambda>p s. True"]) (auto simp: orNoReturn_def)

end
