(* ===== verification/Validate.thy ===== *)
theory Validate
  imports KeyVaultTypes
begin

text \<open>
  \<open>pkg/provider/validate.go\<close>, and \<open>formatKeyVaultObject\<close> of \<open>provider.go\<close>, which trims
  every string field before validation. \<open>Inr ()\<close> is a nil error. The facts below say what a
  validated object guarantees, above all that its file name stays below the mount.
\<close>

definition errDotDot :: go_error where
  "errDotDot = Errorf (''file name must not contain '' @ [CHR 0x27] @ ''..'' @ [CHR 0x27]) []"

definition validateObjectFormat :: "string \<Rightarrow> string \<Rightarrow> unit result" where
  "validateObjectFormat objectFormat objectType =
     (if objectFormat = [] then Inr ()
      else if \<not> EqualFold objectFormat ObjectFormatPEM \<and> \<not> EqualFold objectFormat ObjectFormatPFX
      then Inl (Errorf ''invalid objectFormat: %v, should be PEM or PFX'' [objectFormat])
      else if objectFormat = ObjectFormatPFX \<and> objectType \<noteq> VaultObjectTypeSecret
      then Inl (Errorf ''PFX format only supported for objectType: secret'' [])
      else Inr ())"

definition validateObjectEncoding :: "string \<Rightarrow> string \<Rightarrow> unit result" where
  "validateObjectEncoding objectEncoding objectType =
     (if objectEncoding = [] then Inr ()
      else if objectType \<noteq> VaultObjectTypeSecret
      then Inl (Errorf ''objectEncoding only supported for objectType: secret'' [])
      else if \<not> EqualFold objectEncoding ObjectEncodingHex \<and>
              \<not> EqualFold objectEncoding ObjectEncodingBase64 \<and>
              \<not> EqualFold objectEncoding ObjectEncodingUtf8
      then Inl (Errorf ''invalid objectEncoding: %v, should be hex, base64 or utf-8'' [objectEncoding])
      else Inr ())"

definition validateFileName :: "string \<Rightarrow> unit result" where
  "validateFileName fileName =
     (if fileName = [] then Inl (Errorf ''file name must not be empty'' [])
      else if IsAbs fileName then Inl (Errorf ''file name must be a relative path'' [])
      else if ''..'' \<in> set (split_on slash fileName) then Inl errDotDot
      else if sublist ''..'' fileName then Inl errDotDot
      else Inr ())"

definition validate :: "keyVaultObject \<Rightarrow> unit result" where
  "validate kv =
     rbind (validateObjectFormat (ObjectFormat kv) (ObjectType kv)) (\<lambda>_.
     rbind (validateObjectEncoding (ObjectEncoding kv) (ObjectType kv)) (\<lambda>_.
     validateFileName (GetFileName kv)))"

text \<open>Reflection walks the fields in order and trims those of type \<open>string\<close>; a nil pointer is left alone.\<close>

definition formatKeyVaultObject :: "keyVaultObject option \<Rightarrow> keyVaultObject option" where
  "formatKeyVaultObject object =
     (case object of
        None \<Rightarrow> None
      | Some kv \<Rightarrow>
          Some (kv\<lparr>ObjectName := TrimSpace (ObjectName kv),
                   ObjectAlias := TrimSpace (ObjectAlias kv),
                   ObjectVersion := TrimSpace (ObjectVersion kv),
                   ObjectType := TrimSpace (ObjectType kv),
                   ObjectFormat := TrimSpace (ObjectFormat kv),
                   ObjectEncoding := TrimSpace (ObjectEncoding kv),
                   FilePermission := TrimSpace (FilePermission kv)\<rparr>))"

lemma validate_eq_Inr [result_simps]:
  "validate kv = Inr u \<longleftrightarrow>
     validateObjectFormat (ObjectFormat kv) (ObjectType kv) = Inr () \<and>
     validateObjectEncoding (ObjectEncoding kv) (ObjectType kv) = Inr () \<and>
     validateFileName (GetFileName kv) = Inr ()"
  by (auto simp: validate_def result_simps)

text \<open>The element check is subsumed by the substring check that follows it.\<close>

lemma dotdot_elem_sublist: "''..'' \<in> set (split_on slash p) \<Longrightarrow> sublist ''..'' p"
proof -
  have "sublist x (join_with [slash] xs)" if "x \<in> set xs" for x xs
    using that
  proof (induction "[slash]" xs rule: join_with.induct)
    case (3 y z zs)
    then show ?case
      by (metis append_Cons append_Nil set_ConsD sublist_append_rightI sublist_append_leftI
          sublist_order.order.trans join_with.simps(3))
  qed auto
  then show "''..'' \<in> set (split_on slash p) \<Longrightarrow> sublist ''..'' p"
    by (metis join_split_on)
qed

lemma validateFileName_iff:
  "validateFileName p = Inr () \<longleftrightarrow> p \<noteq> [] \<and> \<not> IsAbs p \<and> \<not> sublist ''..'' p"
  using dotdot_elem_sublist by (auto simp: validateFileName_def)

lemma validateFileName_safe: "validateFileName p = Inr () \<Longrightarrow> safePath p"
  using dotdot_elem_sublist by (auto simp: validateFileName_iff safePath_def)

lemma validate_safe: "validate kv = Inr () \<Longrightarrow> safePath (GetFileName kv)"
  by (auto simp: result_simps intro: validateFileName_safe)

lemma validate_encoding:
  "validate kv = Inr () \<Longrightarrow> ObjectEncoding kv \<noteq> [] \<Longrightarrow>
     ObjectType kv = VaultObjectTypeSecret \<and>
     (EqualFold (ObjectEncoding kv) ObjectEncodingHex \<or>
      EqualFold (ObjectEncoding kv) ObjectEncodingBase64 \<or>
      EqualFold (ObjectEncoding kv) ObjectEncodingUtf8)"
  by (auto simp: result_simps validateObjectEncoding_def split: if_splits)

lemma formatKeyVaultObject_idem:
  "formatKeyVaultObject (formatKeyVaultObject o') = formatKeyVaultObject o'"
  by (cases o') (simp_all add: formatKeyVaultObject_def)

lemma validate_no_panic: "validate kv = Inl e \<Longrightarrow> \<not> is_panic e"
  by (auto simp: validate_def validateObjectFormat_def validateObjectEncoding_def
      validateFileName_def errDotDot_def result_simps split: if_splits)

section \<open>Properties\<close>

text \<open>
  Property C30. What validation accepts, exactly, of an object whose format, if it is pfx, is
  spelled in lower case as the code's own constant: a format that is absent, pem in any case, or
  pfx, and pfx only for a secret; an encoding that is absent, or, for a secret, hex, base64 or utf-8
  in any case; and a file name that is neither empty nor absolute and nowhere contains two dots in
  a row.
\<close>

theorem validate_iff:
  assumes "EqualFold (ObjectFormat kv) ''pfx'' \<longrightarrow> ObjectFormat kv = ''pfx''"
  shows "validate kv = Inr () \<longleftrightarrow>
     (ObjectFormat kv = [] \<or> EqualFold (ObjectFormat kv) ''pem'' \<or>
      ObjectFormat kv = ''pfx'' \<and> ObjectType kv = ''secret'') \<and>
     (ObjectEncoding kv = [] \<or>
      ObjectType kv = ''secret'' \<and>
      (EqualFold (ObjectEncoding kv) ''hex'' \<or> EqualFold (ObjectEncoding kv) ''base64'' \<or>
       EqualFold (ObjectEncoding kv) ''utf-8'')) \<and>
     GetFileName kv \<noteq> [] \<and> \<not> IsAbs (GetFileName kv) \<and> \<not> sublist ''..'' (GetFileName kv)"
proof -
  have "\<not> EqualFold ''pfx'' ''pem''" "EqualFold ''pfx'' ''pfx''" by code_simp+
  then show ?thesis using assms
    by (auto simp: validate_eq_Inr validateFileName_iff validateObjectFormat_def validateObjectEncoding_def
        const_defs)
qed

definition exampleObject :: keyVaultObject where
  "exampleObject = \<lparr>ObjectName = ''cert1'', ObjectAlias = [], ObjectVersion = [], ObjectVersionHistory = 0,
     ObjectType = ''cert'', ObjectFormat = ''PFX'', ObjectEncoding = [], FilePermission = ''rw-r--r--''\<rparr>"

theorem validate_iff_witness:
  "validate (exampleObject\<lparr>ObjectFormat := ''pfx'', ObjectType := ''secret''\<rparr>) = Inr () \<and>
   validate (exampleObject\<lparr>ObjectFormat := ''pfx''\<rparr>) \<noteq> Inr ()"
proof -
  have "\<not> EqualFold ''pfx'' ''pem''" "\<not> sublist ''..'' ''cert1''" by code_simp+
  then show ?thesis
    using validate_iff[of "exampleObject\<lparr>ObjectFormat := ''pfx'', ObjectType := ''secret''\<rparr>"]
      validate_iff[of "exampleObject\<lparr>ObjectFormat := ''pfx''\<rparr>"]
    by (simp add: exampleObject_def GetFileName_def IsAbs_def)
qed

text \<open>
  The spelling matters: the restriction of pfx to secrets is compared with the lower-case name, so
  another case evades it. A file permission that is not an octal number gets through and becomes
  mode 0.
\<close>

lemma upper_case_pfx: "validate exampleObject = Inr ()"
  by code_simp

lemma invalid_permission_mode: "fst (GetFilePermission exampleObject 420) = 0"
  by (simp add: GetFilePermission_def exampleObject_def ParseInt_def digitVal_def lowerChar_def)

text \<open>
  A validated file name stays below the directory it is joined to.
\<close>

lemma validate_confines:
  assumes "validate kv = Inr ()"
  shows "safePath (GetFileName kv)"
  using assms by (rule validate_safe)

lemma validate_confines_witness: "safePath ''a/b''"
proof -
  have "validate (exampleObject\<lparr>ObjectAlias := ''a/b''\<rparr>) = Inr ()" by code_simp
  from validate_confines[OF this] show ?thesis by (simp add: GetFileName_def)
qed

text \<open>
  Formatting an object trims every text field, leaves the version history alone, and
  is idempotent.
\<close>

lemma formatKeyVaultObject_trims:
  "\<exists>kv'. formatKeyVaultObject (Some kv) = Some kv' \<and> formatKeyVaultObject (Some kv') = Some kv' \<and>
     ObjectVersionHistory kv' = ObjectVersionHistory kv \<and>
     (\<forall>fld \<in> {ObjectName, ObjectAlias, ObjectVersion, ObjectType, ObjectFormat, ObjectEncoding, FilePermission}.
        fld kv' = TrimSpace (fld kv))"
  by (simp add: formatKeyVaultObject_def)

lemma formatKeyVaultObject_trims_witness:
  "\<exists>kv'. formatKeyVaultObject (Some (exampleObject\<lparr>ObjectAlias := '' a ''\<rparr>)) = Some kv' \<and> ObjectAlias kv' = ''a''"
proof -
  have "TrimSpace '' a '' = ''a''" by code_simp
  with formatKeyVaultObject_trims[of "exampleObject\<lparr>ObjectAlias := '' a ''\<rparr>"] show ?thesis by auto
qed

end
