(* ===== verification/Versions.thy ===== *)
theory Versions
  imports KeyVaultTypes
begin

text \<open>
  Choosing object versions: \<open>getLatestNKeyVaultObjects\<close> of \<open>provider.go\<close>. The order of
  versions created at the same time is up to \<open>sort.Sort\<close>, which is not stable; the model takes
  the sort as an argument, its contract is the locale \<open>version_sorter\<close>, and the insertion sort
  that \<open>sort.Sort\<close> runs on short slices, written over the \<open>Less\<close> and \<open>Swap\<close> of
  \<open>types.go\<close>, is an instance.
\<close>

section \<open>The contract of the sort\<close>

locale version_sorter =
  fixes sortf :: "keyVaultObjectVersionList \<Rightarrow> keyVaultObjectVersionList"
  assumes sort_mset: "mset (sortf vs) = mset vs"
    and sort_order: "sorted_wrt (\<lambda>a b. \<not> kvCreated b > kvCreated a) (sortf vs)"
begin

lemma sort_set: "set (sortf vs) = set vs"
  using sort_mset mset_eq_setD by blast

lemma sort_length: "length (sortf vs) = length vs"
  using sort_mset by (metis size_mset)

text \<open>A prefix of the sorted list holds newest versions: what is left out is not newer.\<close>

lemma sort_take_newest:
  assumes "a \<in> set (take n (sortf vs))" "b \<in> set (drop n (sortf vs))"
  shows "kvCreated b \<le> kvCreated a"
  using sort_order[of vs] assms
  by (metis append_take_drop_id linorder_not_less sorted_wrt_append)

end

section \<open>Insertion sort over Less and Swap\<close>

fun siftDown :: "keyVaultObjectVersionList \<Rightarrow> nat \<Rightarrow> keyVaultObjectVersionList" where
  "siftDown vs 0 = vs"
| "siftDown vs (Suc j) = (if Less vs (Suc j) j then siftDown (Swap vs (Suc j) j) j else vs)"

definition insertionSort :: "keyVaultObjectVersionList \<Rightarrow> keyVaultObjectVersionList" where
  "insertionSort vs = foldl siftDown vs [1..<Len vs]"

section \<open>getLatestNKeyVaultObjects\<close>

fun latestLoop ::
  "keyVaultObject \<Rightarrow> string \<Rightarrow> bool \<Rightarrow> keyVaultObject list \<Rightarrow> keyVaultObjectVersionList \<Rightarrow> keyVaultObject list" where
  "latestLoop kvObject baseFileName foundFirst objects [] = objects"
| "latestLoop kvObject baseFileName foundFirst objects (v # vs) =
     (let found = (foundFirst \<or> kvVersion v = ObjectVersion kvObject) in
      if found then
        (let len = length objects;
             newObject = kvObject\<lparr>ObjectAlias := Join baseFileName (Itoa len), ObjectVersion := kvVersion v\<rparr>;
             objects' = objects @ [newObject]
         in if int (len + 1) > sint (ObjectVersionHistory kvObject) then objects'
            else latestLoop kvObject baseFileName found objects' vs)
      else latestLoop kvObject baseFileName found objects vs)"

definition getLatestNKeyVaultObjects ::
  "(keyVaultObjectVersionList \<Rightarrow> keyVaultObjectVersionList) \<Rightarrow>
   keyVaultObject \<Rightarrow> keyVaultObjectVersionList \<Rightarrow> keyVaultObject list" where
  "getLatestNKeyVaultObjects sortf kvObject kvObjectVersions =
     (let baseFileName = GetFileName kvObject;
          foundFirst = (ObjectVersion kvObject = [] \<or> ObjectVersion kvObject = ''latest'')
      in latestLoop kvObject baseFileName foundFirst [] (sortf kvObjectVersions))"

section \<open>Reference definition\<close>

text \<open>
  The versions to sync: from the requested version on (all of them when the latest is asked
  for), and of these one more than the configured history.
\<close>

definition startAt :: "keyVaultObject \<Rightarrow> keyVaultObjectVersionList \<Rightarrow> keyVaultObjectVersionList" where
  "startAt kv vs =
     (if ObjectVersion kv = [] \<or> ObjectVersion kv = ''latest'' then vs
      else dropWhile (\<lambda>v. kvVersion v \<noteq> ObjectVersion kv) vs)"

definition numbered :: "keyVaultObject \<Rightarrow> nat \<Rightarrow> keyVaultObjectVersion \<Rightarrow> keyVaultObject" where
  "numbered kv i v = kv\<lparr>ObjectAlias := Join (GetFileName kv) (Itoa i), ObjectVersion := kvVersion v\<rparr>"

definition syncedVersions :: "keyVaultObject \<Rightarrow> keyVaultObjectVersionList \<Rightarrow> keyVaultObjectVersionList" where
  "syncedVersions kv vs = take (Suc (nat (sint (ObjectVersionHistory kv)))) (startAt kv vs)"

section \<open>Correctness of the sort\<close>

fun insRev :: "keyVaultObjectVersion \<Rightarrow> keyVaultObjectVersionList \<Rightarrow> keyVaultObjectVersionList" where
  "insRev v [] = [v]"
| "insRev v (x # xs) = (if kvCreated v > kvCreated x then x # insRev v xs else v # x # xs)"

lemma siftDown_insRev: "siftDown (rev xs @ v # ys) (length xs) = rev (insRev v xs) @ ys"
proof (induction xs arbitrary: ys)
  case (Cons x xs)
  let ?vs = "rev xs @ x # v # ys"
  have l: "Less ?vs (Suc (length xs)) (length xs) \<longleftrightarrow> kvCreated v > kvCreated x"
    by (simp add: Less_def nth_append)
  have s: "Swap ?vs (Suc (length xs)) (length xs) = rev xs @ v # x # ys"
    by (simp add: Swap_def nth_append list_update_append)
  show ?case using Cons.IH[of "x # ys"] l s by simp
qed simp

lemma mset_insRev: "mset (insRev v xs) = add_mset v (mset xs)"
  by (induction xs) auto

lemma set_insRev: "set (insRev v xs) = insert v (set xs)"
  by (induction xs) auto

lemma insRev_sorted:
  "sorted_wrt (\<lambda>a b. kvCreated a \<le> kvCreated b) xs \<Longrightarrow>
   sorted_wrt (\<lambda>a b. kvCreated a \<le> kvCreated b) (insRev v xs)"
  by (induction xs) (auto simp: set_insRev)

lemma insertionSort_prefix:
  assumes "n \<le> length vs"
  shows "\<exists>xs. foldl siftDown vs [1..<n] = rev xs @ drop (max 1 n) vs \<and>
      mset xs = mset (take (max 1 n) vs) \<and> sorted_wrt (\<lambda>a b. kvCreated a \<le> kvCreated b) xs"
  using assms
proof (induction n)
  case 0
  then show ?case by (cases vs) (auto intro!: exI[of _ "take 1 vs"])
next
  case (Suc n)
  then obtain xs where IH: "foldl siftDown vs [1..<n] = rev xs @ drop (max 1 n) vs"
    "mset xs = mset (take (max 1 n) vs)" "sorted_wrt (\<lambda>a b. kvCreated a \<le> kvCreated b) xs"
    by auto
  show ?case
  proof (cases n)
    case 0
    with IH show ?thesis by auto
  next
    case (Suc m)
    have len: "length xs = n" using IH(2) Suc.prems Suc by (metis Suc_leD length_take max_def
          min.absorb2 mset_eq_length not_less_eq_eq zero_less_Suc One_nat_def less_Suc_eq_le)
    have d: "drop n vs = vs ! n # drop (Suc n) vs" using Suc.prems by (simp add: Cons_nth_drop_Suc)
    have "foldl siftDown vs [1..<Suc n] = siftDown (rev xs @ vs ! n # drop (Suc n) vs) (length xs)"
      using IH(1) Suc len d by (simp add: max_def)
    then have "foldl siftDown vs [1..<Suc n] = rev (insRev (vs ! n) xs) @ drop (max 1 (Suc n)) vs"
      by (simp add: siftDown_insRev)
    moreover have "mset (insRev (vs ! n) xs) = mset (take (max 1 (Suc n)) vs)"
      using IH(2) Suc Suc.prems by (simp add: mset_insRev take_Suc_conv_app_nth max_def)
    ultimately show ?thesis using insRev_sorted[OF IH(3)] by blast
  qed
qed

interpretation insertion: version_sorter insertionSort
proof
  fix vs
  obtain xs where xs: "insertionSort vs = rev xs" "mset xs = mset vs"
    "sorted_wrt (\<lambda>a b. kvCreated a \<le> kvCreated b) xs"
    using insertionSort_prefix[of "length vs" vs]
    by (auto simp: insertionSort_def Len_def max_def split: if_splits)
  show "mset (insertionSort vs) = mset vs" using xs by simp
  show "sorted_wrt (\<lambda>a b. \<not> kvCreated b > kvCreated a) (insertionSort vs)"
    using xs by (simp add: sorted_wrt_rev not_less)
qed

section \<open>The loop computes the reference\<close>

lemma latestLoop_found:
  assumes "length objects \<le> nat (sint (ObjectVersionHistory kv))"
  shows "latestLoop kv (GetFileName kv) True objects vs =
      objects @ map (\<lambda>(i, v). numbered kv i v)
        (enumerate (length objects)
          (take (Suc (nat (sint (ObjectVersionHistory kv))) - length objects) vs))"
  using assms
proof (induction vs arbitrary: objects)
  case (Cons v vs)
  let ?h = "sint (ObjectVersionHistory kv)"
  let ?objs = "objects @ [numbered kv (length objects) v]"
  have step: "latestLoop kv (GetFileName kv) True objects (v # vs) =
      (if int (length objects + 1) > ?h then ?objs else latestLoop kv (GetFileName kv) True ?objs vs)"
    by (simp add: Let_def numbered_def)
  show ?case
  proof (cases "int (length objects + 1) > ?h")
    case True
    then have "Suc (nat ?h) - length objects = 1" using Cons.prems by linarith
    with True step show ?thesis by simp
  next
    case False
    then have l: "length ?objs \<le> nat ?h" by simp
    have t: "Suc (nat ?h) - length objects = Suc (Suc (nat ?h) - length ?objs)" using l by simp
    show ?thesis unfolding step using False Cons.IH[OF l] t by (simp del: latestLoop.simps)
  qed
qed simp

lemma latestLoop_search:
  "latestLoop kv (GetFileName kv) False [] vs =
   latestLoop kv (GetFileName kv) True [] (dropWhile (\<lambda>v. kvVersion v \<noteq> ObjectVersion kv) vs)"
  by (induction vs) (auto simp: Let_def)

lemma getLatestN_reference:
  "getLatestNKeyVaultObjects sortf kv vs =
     map (\<lambda>(i, v). numbered kv i v) (enumerate 0 (syncedVersions kv (sortf vs)))"
  by (simp add: getLatestNKeyVaultObjects_def Let_def syncedVersions_def startAt_def
      latestLoop_search latestLoop_found)

lemma getLatestN_nth:
  assumes "i < length (syncedVersions kv (sortf vs))"
  shows "getLatestNKeyVaultObjects sortf kv vs ! i = numbered kv i (syncedVersions kv (sortf vs) ! i)"
  using assms by (simp add: getLatestN_reference nth_enumerate_eq)

lemma getLatestN_length [simp]:
  "length (getLatestNKeyVaultObjects sortf kv vs) = length (syncedVersions kv (sortf vs))"
  by (simp add: getLatestN_reference)

lemma numbered_simps [simp]:
  "ObjectName (numbered kv i v) = ObjectName kv" "ObjectType (numbered kv i v) = ObjectType kv"
  "ObjectFormat (numbered kv i v) = ObjectFormat kv"
  "ObjectEncoding (numbered kv i v) = ObjectEncoding kv"
  "FilePermission (numbered kv i v) = FilePermission kv"
  "ObjectVersionHistory (numbered kv i v) = ObjectVersionHistory kv"
  "ObjectVersion (numbered kv i v) = kvVersion v"
  "ObjectAlias (numbered kv i v) = Join (GetFileName kv) (Itoa i)"
  by (simp_all add: numbered_def)

lemma numbered_FileName: "GetFileName (numbered kv i v) = Join (GetFileName kv) (Itoa i)"
  using Join_elems(4)[of "Itoa i" "GetFileName kv"] by (simp add: GetFileName_def)

lemma numbered_safe: "safePath (GetFileName kv) \<Longrightarrow> safePath (GetFileName (numbered kv i v))"
  by (simp add: numbered_FileName safePath_Join)

lemma numbered_UID:
  "\<not> IsSyncingSingleVersion kv \<Longrightarrow>
   GetObjectUID (numbered kv i v) = ObjectType kv @ ''/'' @ ObjectName kv @ ''/'' @ Itoa i"
  using Join_elems(1)[of "Itoa i" "GetFileName kv"]
  by (simp add: GetObjectUID_def IsSyncingSingleVersion_def)

lemma getLatestN_elem:
  assumes "k \<in> set (getLatestNKeyVaultObjects sortf kv vs)"
  shows "\<exists>i v. k = numbered kv i v \<and> i \<le> nat (sint (ObjectVersionHistory kv))"
proof -
  obtain i where i: "i < length (syncedVersions kv (sortf vs))" "k = getLatestNKeyVaultObjects sortf kv vs ! i"
    using assms by (auto simp: in_set_conv_nth)
  then have "i \<le> nat (sint (ObjectVersionHistory kv))" by (simp add: syncedVersions_def)
  with i getLatestN_nth[of i kv sortf vs] show ?thesis by metis
qed

lemma numbered_alias_inj:
  assumes "GetFileName (numbered kv i v) = GetFileName (numbered kv j w)"
  shows "i = j"
proof -
  have "last (split_on slash (Join (GetFileName kv) (Itoa n))) = Itoa n" for n
    by (rule Join_elems(1)) simp_all
  then have "Itoa i = Itoa j" using assms unfolding numbered_FileName by metis
  then show ?thesis by (simp only: Itoa_inj)
qed

section \<open>Properties\<close>


text \<open>
  Property C31. Two versions synced for one object never get the same file name, and every file name
  stays below the mount when the object's own does.
\<close>

theorem getLatestNKeyVaultObjects_names:
  assumes "safePath (GetFileName kv)"
  shows "distinct (map GetFileName (getLatestNKeyVaultObjects sortf kv vs)) \<and>
    (\<forall>k\<in>set (getLatestNKeyVaultObjects sortf kv vs). safePath (GetFileName k))"
proof
  show "distinct (map GetFileName (getLatestNKeyVaultObjects sortf kv vs))"
    unfolding distinct_conv_nth by (auto simp: getLatestN_nth dest: numbered_alias_inj)
  show "\<forall>k\<in>set (getLatestNKeyVaultObjects sortf kv vs). safePath (GetFileName k)"
    using assms by (auto dest!: getLatestN_elem intro: numbered_safe)
qed

section \<open>Witnesses\<close>

definition historyObject :: keyVaultObject where
  "historyObject = \<lparr>ObjectName = ''s'', ObjectAlias = [], ObjectVersion = [], ObjectVersionHistory = 2,
     ObjectType = ''secret'', ObjectFormat = [], ObjectEncoding = [], FilePermission = []\<rparr>"

definition fourVersions :: keyVaultObjectVersionList where
  "fourVersions = [\<lparr>kvVersion = ''a'', kvCreated = 1\<rparr>, \<lparr>kvVersion = ''d'', kvCreated = 4\<rparr>,
     \<lparr>kvVersion = ''c'', kvCreated = 3\<rparr>, \<lparr>kvVersion = ''b'', kvCreated = 2\<rparr>]"

text \<open>
  The loop compares the length before the append, so a history of two gives three versions
  when there are that many.
\<close>

lemma history_one_more:
  "map ObjectVersion (getLatestNKeyVaultObjects insertionSort historyObject fourVersions) = [''d'', ''c'', ''b'']"
  by code_simp


theorem getLatestNKeyVaultObjects_names_witness:
  "safePath (GetFileName historyObject) \<and>
   distinct (map GetFileName (getLatestNKeyVaultObjects insertionSort historyObject fourVersions))"
  using getLatestNKeyVaultObjects_names[of historyObject insertionSort fourVersions]
  by (simp add: historyObject_def GetFileName_def safePath_def IsAbs_def)

end
