(* ===== verification/Fetch.thy ===== *)
theory Fetch
  imports Certs KeyVaultClient Validate Versions
begin

text \<open>
  Reading one object from the vault, from \<open>provider.go\<close>: \<open>getSecret\<close>, \<open>getKey\<close>,
  \<open>getCertificate\<close>, their dispatch with its metrics report, the listing of versions, and
  \<open>getContentBytes\<close>. The state is a world: the process environment, the reports made so far
  and the vault behind the SDK.
\<close>

section \<open>State and data\<close>

record azureEnvironment =
  KeyVaultEndpoint :: string
  ActiveDirectoryEndpoint :: string
  KeyVaultDNSSuffix :: string

record provider =
  constructPEMChain :: bool
  writeCertAndKeyInSeparateFiles :: bool
  defaultCloudEnvironment :: azureEnvironment

record kvContent =
  content :: string
  fileNameSuffix :: string
  version :: string

text \<open>One call of \<open>ReportKeyvaultRequest\<close>, less the duration.\<close>

record kvReport =
  repObjectType :: string
  repObjectName :: string
  repError :: "go_error option"

record 'v world =
  environ :: "string \<rightharpoonup> string"
  reports :: "kvReport list"
  vault :: 'v

definition onVault :: "('v, 'a) io \<Rightarrow> ('v world, 'a) io" where
  "onVault m w = (case m (vault w) of (r, v) \<Rightarrow> (r, w\<lparr>vault := v\<rparr>))"

section \<open>One object\<close>

definition wrapObjectTypeError :: "string \<Rightarrow> string \<Rightarrow> string \<Rightarrow> go_error \<Rightarrow> go_error" where
  "wrapObjectTypeError objectType objectName objectVersion e =
     wrapf ''failed to get objectType:%s, objectName:%s, objectVersion:%s''
       [objectType, objectName, objectVersion] e"

definition wrapKv :: "keyVaultObject \<Rightarrow> go_error \<Rightarrow> go_error" where
  "wrapKv kv = wrapObjectTypeError (ObjectType kv) (ObjectName kv) (ObjectVersion kv)"

text \<open>The content of a secret that backs a certificate, in the requested format.\<close>

definition certSecretContent ::
  "'k cryptoLib \<Rightarrow> provider \<Rightarrow> keyVaultObject \<Rightarrow> string option \<Rightarrow> string \<Rightarrow> string result" where
  "certSecretContent lib p kv contentType val =
     (case contentType of
        None \<Rightarrow> Inl nilDeref
      | Some ct \<Rightarrow>
          if ct = CertTypePem then Inr val
          else if ct = CertTypePfx then
            (if EqualFold (ObjectFormat kv) ObjectFormatPFX then Inr val
             else wrapErr (wrapKv kv) (decodePKCS12 lib (constructPEMChain p) val))
          else Inl (wrapKv kv (Errorf (''failed to get certificate. unknown content type '%s'' @ [CHR 0x27]) [ct])))"

definition secretObjects ::
  "'k cryptoLib \<Rightarrow> (string \<Rightarrow> string) \<Rightarrow> provider \<Rightarrow> keyVaultObject \<Rightarrow> secretBundle \<Rightarrow> kvContent list result" where
  "secretObjects lib idVersion p kv secret =
     (case sbValue secret of
        None \<Rightarrow> Inl (Errorf ''secret value is nil'' [])
      | Some val \<Rightarrow>
          (case sbID secret of
             None \<Rightarrow> Inl (Errorf ''secret id is nil'' [])
           | Some ident \<Rightarrow>
               (let ver = idVersion ident in
                if (case sbKid secret of None \<Rightarrow> False | Some kid \<Rightarrow> kid \<noteq> []) then
                  rbind (certSecretContent lib p kv (sbContentType secret) val) (\<lambda>cont.
                    let separate =
                      (if writeCertAndKeyInSeparateFiles p then
                         (let (cert, key) = splitCertAndKey cont in
                          [\<lparr>content = cert, fileNameSuffix = ''.crt'', version = ver\<rparr>,
                           \<lparr>content = key, fileNameSuffix = ''.key'', version = ver\<rparr>])
                       else [])
                    in Inr (separate @ [\<lparr>content = cont, fileNameSuffix = [], version = ver\<rparr>]))
                else Inr [\<lparr>content = val, fileNameSuffix = [], version = ver\<rparr>])))"

definition getSecret ::
  "('v, 'cred, 'h) kvSdk \<Rightarrow> 'k cryptoLib \<Rightarrow> provider \<Rightarrow> 'h kvClient \<Rightarrow> keyVaultObject \<Rightarrow> ('v, kvContent list) io" where
  "getSecret sdk lib p kvClient kv v =
     (case GetSecret sdk kvClient (ObjectName kv) (ObjectVersion kv) v of
        (Inl e, v') \<Rightarrow> (Inl (wrapKv kv e), v')
      | (Inr secret, v') \<Rightarrow> (secretObjects lib (SecretIDVersion sdk) p kv secret, v'))"

definition pubKeyBlock :: "bytes \<Rightarrow> pemBlock" where
  "pubKeyBlock der = \<lparr>pemType = ''PUBLIC KEY'', pemHeaders = [], pemBytes = der\<rparr>"

text \<open>
  The public key of a JSON web key. The exponent is the low 64 bits of the number, read as a
  signed integer, as \<open>big.Int.Int64\<close> and the conversion to \<open>int\<close> give it.
\<close>

definition jwkPublicKey :: "keyVaultObject \<Rightarrow> jsonWebKey \<Rightarrow> publicKey result" where
  "jwkPublicKey kv key =
     (case jwkKty key of
        None \<Rightarrow> Inl nilDeref
      | Some kty \<Rightarrow>
          if kty = ''RSA'' \<or> kty = ''RSA-HSM'' then
            Inr (RSAPublicKey (bigEndian (jwkN key)) (sint (of_nat (bigEndian (jwkE key)) :: 64 word)))
          else if kty = ''EC'' \<or> kty = ''EC-HSM'' then
            (case jwkCrv key of
               None \<Rightarrow> Inl nilDeref
             | Some crv \<Rightarrow>
                 rbind (wrapErr (wrapKv kv) (getCurve crv))
                   (\<lambda>c. Inr (ECPublicKey (bigEndian (jwkX key)) (bigEndian (jwkY key)) c)))
          else Inl (wrapKv kv (Errorf ''failed to get key. key type '%s' currently not supported'' [kty])))"

definition keyObjects ::
  "'k cryptoLib \<Rightarrow> (string \<Rightarrow> string) \<Rightarrow> keyVaultObject \<Rightarrow> keyBundle \<Rightarrow> kvContent list result" where
  "keyObjects lib idVersion kv keybundle =
     (case kbKey keybundle of
        None \<Rightarrow> Inl (Errorf ''key value is nil'' [])
      | Some key \<Rightarrow>
          (case jwkKID key of
             None \<Rightarrow> Inl (Errorf ''key id is nil'' [])
           | Some ident \<Rightarrow>
               rbind (jwkPublicKey kv key) (\<lambda>pKey.
               rbind (wrapErr (wrapKv kv) (MarshalPKIXPublicKey pKey)) (\<lambda>derBytes.
               Inr [\<lparr>content = EncodeToMemory (pubKeyBlock derBytes), fileNameSuffix = [],
                     version = idVersion ident\<rparr>]))))"

definition getKey ::
  "('v, 'cred, 'h) kvSdk \<Rightarrow> 'k cryptoLib \<Rightarrow> 'h kvClient \<Rightarrow> keyVaultObject \<Rightarrow> ('v, kvContent list) io" where
  "getKey sdk lib kvClient kv v =
     (case GetKey sdk kvClient (ObjectName kv) (ObjectVersion kv) v of
        (Inl e, v') \<Rightarrow> (Inl (wrapKv kv e), v')
      | (Inr keybundle, v') \<Rightarrow> (keyObjects lib (KeyIDVersion sdk) kv keybundle, v'))"

definition certObjects :: "(string \<Rightarrow> string) \<Rightarrow> certificateBundle \<Rightarrow> kvContent list result" where
  "certObjects idVersion certbundle =
     (case cbCER certbundle of
        None \<Rightarrow> Inl (Errorf ''certificate value is nil'' [])
      | Some cer \<Rightarrow>
          (case cbID certbundle of
             None \<Rightarrow> Inl (Errorf ''certificate id is nil'' [])
           | Some ident \<Rightarrow>
               Inr [\<lparr>content = EncodeToMemory (certBlock cer), fileNameSuffix = [], version = idVersion ident\<rparr>]))"

definition getCertificate ::
  "('v, 'cred, 'h) kvSdk \<Rightarrow> 'h kvClient \<Rightarrow> keyVaultObject \<Rightarrow> ('v, kvContent list) io" where
  "getCertificate sdk kvClient kv v =
     (case GetCertificate sdk kvClient (ObjectName kv) (ObjectVersion kv) v of
        (Inl e, v') \<Rightarrow> (Inl (wrapKv kv e), v')
      | (Inr certbundle, v') \<Rightarrow> (certObjects (CertificateIDVersion sdk) certbundle, v'))"

section \<open>Dispatch and report\<close>

definition errObjectType :: "keyVaultObject \<Rightarrow> go_error" where
  "errObjectType kv = wrapKv kv (Errorf ''Invalid vaultObjectTypes. Should be secret, key, or cert'' [])"

text \<open>
  The deferred call of the reporter: it sees the named result \<open>err\<close>, which is still nil when the
  body panics.
\<close>

definition reportRequest :: "keyVaultObject \<Rightarrow> ('v world, 'a) io \<Rightarrow> ('v world, 'a) io" where
  "reportRequest kv m w =
     (case m w of (r, w') \<Rightarrow>
        (r, w'\<lparr>reports := reports w' @
          [\<lparr>repObjectType = ObjectType kv, repObjectName = ObjectName kv,
            repError = (case r of Inl e \<Rightarrow> if is_panic e then None else Some e | Inr _ \<Rightarrow> None)\<rparr>]\<rparr>))"

definition getKeyVaultObjectContent ::
  "('v, 'cred, 'h) kvSdk \<Rightarrow> 'k cryptoLib \<Rightarrow> provider \<Rightarrow> 'h kvClient \<Rightarrow> keyVaultObject \<Rightarrow>
   ('v world, kvContent list) io" where
  "getKeyVaultObjectContent sdk lib p kvClient kv =
     reportRequest kv
       (if ObjectType kv = VaultObjectTypeSecret then onVault (getSecret sdk lib p kvClient kv)
        else if ObjectType kv = VaultObjectTypeKey then onVault (getKey sdk lib kvClient kv)
        else if ObjectType kv = VaultObjectTypeCertificate then onVault (getCertificate sdk kvClient kv)
        else slift (Inl (errObjectType kv)))"

definition getSecretVersions ::
  "('v, 'cred, 'h) kvSdk \<Rightarrow> 'h kvClient \<Rightarrow> keyVaultObject \<Rightarrow> ('v, keyVaultObjectVersionList) io" where
  "getSecretVersions sdk kvClient kv = GetSecretVersions sdk kvClient (ObjectName kv)"

definition getKeyVersions ::
  "('v, 'cred, 'h) kvSdk \<Rightarrow> 'h kvClient \<Rightarrow> keyVaultObject \<Rightarrow> ('v, keyVaultObjectVersionList) io" where
  "getKeyVersions sdk kvClient kv = GetKeyVersions sdk kvClient (ObjectName kv)"

definition getCertificateVersions ::
  "('v, 'cred, 'h) kvSdk \<Rightarrow> 'h kvClient \<Rightarrow> keyVaultObject \<Rightarrow> ('v, keyVaultObjectVersionList) io" where
  "getCertificateVersions sdk kvClient kv = GetCertificateVersions sdk kvClient (ObjectName kv)"

definition getKeyVaultObjectVersions ::
  "('v, 'cred, 'h) kvSdk \<Rightarrow> 'h kvClient \<Rightarrow> keyVaultObject \<Rightarrow> ('v world, keyVaultObjectVersionList) io" where
  "getKeyVaultObjectVersions sdk kvClient kv =
     reportRequest kv
       (if ObjectType kv = VaultObjectTypeSecret then onVault (getSecretVersions sdk kvClient kv)
        else if ObjectType kv = VaultObjectTypeKey then onVault (getKeyVersions sdk kvClient kv)
        else if ObjectType kv = VaultObjectTypeCertificate then onVault (getCertificateVersions sdk kvClient kv)
        else slift (Inl (errObjectType kv)))"

definition resolveObjectVersions ::
  "('v, 'cred, 'h) kvSdk \<Rightarrow> (keyVaultObjectVersionList \<Rightarrow> keyVaultObjectVersionList) \<Rightarrow>
   'h kvClient \<Rightarrow> keyVaultObject \<Rightarrow> ('v world, keyVaultObject list) io" where
  "resolveObjectVersions sdk sortf kvClient kv =
     (if IsSyncingSingleVersion kv then sreturn [kv]
      else sbind (getKeyVaultObjectVersions sdk kvClient kv)
             (\<lambda>vs. sreturn (getLatestNKeyVaultObjects sortf kv vs)))"

definition getContentBytes :: "string \<Rightarrow> string \<Rightarrow> string \<Rightarrow> bytes result" where
  "getContentBytes cont objectType objectEncoding =
     (if \<not> EqualFold objectType VaultObjectTypeSecret \<or> objectEncoding = [] \<or>
         EqualFold objectEncoding ObjectEncodingUtf8
      then Inr cont
      else if EqualFold objectEncoding ObjectEncodingBase64 then base64_DecodeString cont
      else if EqualFold objectEncoding ObjectEncodingHex then hex_DecodeString cont
      else Inl (Errorf ''invalid objectEncoding. Should be utf-8, base64, or hex'' []))"

section \<open>What the state keeps\<close>

lemma onVault_frame:
  "onVault m w = (r, w') \<Longrightarrow> environ w' = environ w \<and> reports w' = reports w"
  by (auto simp: onVault_def split: prod.splits)

lemma reportRequest_report:
  assumes "reportRequest kv m w = (r, w')"
    and "\<And>r' w1. m w = (r', w1) \<Longrightarrow> environ w1 = environ w \<and> reports w1 = reports w"
  shows "environ w' = environ w \<and>
    (\<exists>e. reports w' = reports w @ [\<lparr>repObjectType = ObjectType kv, repObjectName = ObjectName kv, repError = e\<rparr>] \<and>
      e = (case r of Inl x \<Rightarrow> if is_panic x then None else Some x | Inr _ \<Rightarrow> None))"
  using assms by (auto simp: reportRequest_def split: prod.splits)

lemma getKeyVaultObjectContent_report:
  assumes "getKeyVaultObjectContent sdk lib p c kv w = (r, w')"
  shows "environ w' = environ w \<and>
    (\<exists>e. reports w' = reports w @ [\<lparr>repObjectType = ObjectType kv, repObjectName = ObjectName kv, repError = e\<rparr>] \<and>
      e = (case r of Inl x \<Rightarrow> if is_panic x then None else Some x | Inr _ \<Rightarrow> None))"
  by (rule reportRequest_report[OF assms[unfolded getKeyVaultObjectContent_def]])
    (auto split: if_splits dest: onVault_frame)

lemma getKeyVaultObjectVersions_report:
  assumes "getKeyVaultObjectVersions sdk c kv w = (r, w')"
  shows "environ w' = environ w \<and>
    (\<exists>e. reports w' = reports w @ [\<lparr>repObjectType = ObjectType kv, repObjectName = ObjectName kv, repError = e\<rparr>] \<and>
      e = (case r of Inl x \<Rightarrow> if is_panic x then None else Some x | Inr _ \<Rightarrow> None))"
  by (rule reportRequest_report[OF assms[unfolded getKeyVaultObjectVersions_def]])
    (auto split: if_splits dest: onVault_frame)

lemma reportRequest_result: "fst (reportRequest kv m w) = fst (m w)"
  by (simp add: reportRequest_def split: prod.splits)

lemma onVault_result: "fst (onVault m w) = fst (m (vault w))"
  by (simp add: onVault_def split: prod.splits)

section \<open>Facts on the contents\<close>

lemma EqualFold_trans: "EqualFold a b \<Longrightarrow> EqualFold a c \<Longrightarrow> EqualFold b c"
  by (simp add: EqualFold_def)

lemma encodings_differ:
  "\<not> EqualFold ObjectEncodingBase64 ObjectEncodingUtf8"
  "\<not> EqualFold ObjectEncodingHex ObjectEncodingUtf8"
  "\<not> EqualFold ObjectEncodingHex ObjectEncodingBase64"
  "\<not> EqualFold [] ObjectEncodingBase64" "\<not> EqualFold [] ObjectEncodingHex"
  by code_simp+

lemma pem_Decode_single: "goodBlock b \<Longrightarrow> pem_Decode (EncodeToMemory b) = Some (b, [])"
  using pem_Decode_encode[of b "[]"] by simp

definition allowedSuffix :: "string \<Rightarrow> bool" where
  "allowedSuffix suf \<longleftrightarrow> suf \<in> {[], ''.crt'', ''.key''}"

lemma secretObjects_suffix:
  "secretObjects lib idV p kv secret = Inr rs \<Longrightarrow> r \<in> set rs \<Longrightarrow> allowedSuffix (fileNameSuffix r)"
  by (auto simp: secretObjects_def result_simps Let_def allowedSuffix_def
      split: option.splits if_splits prod.splits)

lemma jwk_encodable:
  assumes "jwkPublicKey kv key = Inr pKey" "length (jwkN key) < 2 ^ 31"
  shows "encodable pKey"
proof (cases pKey)
  case (RSAPublicKey n e)
  with assms(1) have ne: "n = bigEndian (jwkN key)" "e = sint (of_nat (bigEndian (jwkE key)) :: 64 word)"
    by (auto simp: jwkPublicKey_def result_simps split: option.splits if_splits)
  have "int n < int (256 ^ length (jwkN key))" using bigEndian_bound[of "jwkN key"] ne(1) by (simp only: of_nat_less_iff)
  then have "int n < 256 ^ length (jwkN key)" by simp
  also have "(256 :: int) ^ length (jwkN key) \<le> 2 ^ (8 * length (jwkN key) + 7)"
    by (simp add: power_add power_mult)
  finally have "length (intBytes (int n)) \<le> Suc (length (jwkN key))"
    by (intro intBytes_length) (auto intro: order_trans[of _ 0])
  moreover have "length (intBytes e) \<le> Suc 7"
    by (rule intBytes_length) (use ne(2) sint_ge[of "of_nat (bigEndian (jwkE key)) :: 64 word"] sint_lt[of "of_nat (bigEndian (jwkE key)) :: 64 word"] in simp_all)
  ultimately show ?thesis using RSAPublicKey assms(2) by simp
qed simp

lemma keyObjects_eq_Inr:
  "keyObjects lib idV kv kb = Inr rs \<longleftrightarrow>
     (\<exists>key ident pKey der. kbKey kb = Some key \<and> jwkKID key = Some ident \<and>
        jwkPublicKey kv key = Inr pKey \<and> MarshalPKIXPublicKey pKey = Inr der \<and>
        rs = [\<lparr>content = EncodeToMemory (pubKeyBlock der), fileNameSuffix = [], version = idV ident\<rparr>])"
  by (auto simp: keyObjects_def result_simps split: option.splits)

lemma certObjects_eq_Inr:
  "certObjects idV cb = Inr rs \<longleftrightarrow>
     (\<exists>cer ident. cbCER cb = Some cer \<and> cbID cb = Some ident \<and>
        rs = [\<lparr>content = EncodeToMemory (certBlock cer), fileNameSuffix = [], version = idV ident\<rparr>])"
  by (auto simp: certObjects_def split: option.splits)

lemma content_suffix:
  assumes "getKeyVaultObjectContent sdk lib p c kv w = (Inr rs, w')" "r \<in> set rs"
  shows "allowedSuffix (fileNameSuffix r)"
proof -
  have "fst (getKeyVaultObjectContent sdk lib p c kv w) = Inr rs" using assms(1) by simp
  then show ?thesis using assms(2)
    by (auto simp: getKeyVaultObjectContent_def reportRequest_result onVault_result getSecret_def
        getKey_def getCertificate_def keyObjects_eq_Inr certObjects_eq_Inr allowedSuffix_def
        split: if_splits prod.splits sum.splits dest: secretObjects_suffix[unfolded allowedSuffix_def])
qed

section \<open>Properties\<close>

text \<open>
  The files of a secret: the last one carries no suffix and the version of the
  secret's identifier; a secret that is not part of a certificate is written as it is; only for a
  certificate, and only with the feature on, there are two more files in front, holding the
  certificates and the rest of exactly the content of the last.
\<close>

lemma getSecret_files:
  assumes "getSecret sdk lib p c kv v = (Inr rs, v')"
  shows "\<exists>secret val ident main.
    GetSecret sdk c (ObjectName kv) (ObjectVersion kv) v = (Inr secret, v') \<and>
    sbValue secret = Some val \<and> sbID secret = Some ident \<and>
    fileNameSuffix main = [] \<and> version main = SecretIDVersion sdk ident \<and>
    (if sbKid secret \<in> {None, Some []} then content main = val \<and> rs = [main]
     else certSecretContent lib p kv (sbContentType secret) val = Inr (content main) \<and>
       rs = (if writeCertAndKeyInSeparateFiles p
             then [main\<lparr>content := fst (splitCertAndKey (content main)), fileNameSuffix := ''.crt''\<rparr>,
                   main\<lparr>content := snd (splitCertAndKey (content main)), fileNameSuffix := ''.key''\<rparr>, main]
             else [main]))"
proof -
  from assms obtain secret where g: "GetSecret sdk c (ObjectName kv) (ObjectVersion kv) v = (Inr secret, v')"
    and so: "secretObjects lib (SecretIDVersion sdk) p kv secret = Inr rs"
    by (auto simp: getSecret_def split: prod.splits sum.splits)
  from so obtain val ident where vi: "sbValue secret = Some val" "sbID secret = Some ident"
    by (auto simp: secretObjects_def split: option.splits)
  let ?main = "\<lambda>x. \<lparr>content = x, fileNameSuffix = [], version = SecretIDVersion sdk ident\<rparr>"
  show ?thesis
  proof (cases "sbKid secret \<in> {None, Some []}")
    case True
    then have "rs = [?main val]" using so vi by (auto simp: secretObjects_def)
    with True g vi show ?thesis
      by (rule_tac x = secret in exI, rule_tac x = val in exI, rule_tac x = ident in exI, rule_tac x = "?main val" in exI) simp
  next
    case False
    then have kid: "(case sbKid secret of None \<Rightarrow> False | Some kid \<Rightarrow> kid \<noteq> [])" by (auto split: option.splits)
    from so vi kid obtain cont where cont: "certSecretContent lib p kv (sbContentType secret) val = Inr cont"
      "rs = (if writeCertAndKeyInSeparateFiles p
             then [(?main cont)\<lparr>content := fst (splitCertAndKey cont), fileNameSuffix := ''.crt''\<rparr>,
                   (?main cont)\<lparr>content := snd (splitCertAndKey cont), fileNameSuffix := ''.key''\<rparr>, ?main cont]
             else [?main cont])"
      by (auto simp: secretObjects_def result_simps Let_def case_prod_beta)
    with False g vi show ?thesis
      by (rule_tac x = secret in exI, rule_tac x = val in exI, rule_tac x = ident in exI, rule_tac x = "?main cont" in exI) auto
  qed
qed

text \<open>
  Property C29. The file of a certificate object is one PEM block of type CERTIFICATE: decoding it
  gives back exactly the bytes of the vault's certificate and nothing is left over.
\<close>

theorem getCertificate_roundtrip:
  assumes "getCertificate sdk c kv v = (Inr rs, v')"
  shows "\<exists>cb cer r. GetCertificate sdk c (ObjectName kv) (ObjectVersion kv) v = (Inr cb, v') \<and>
    cbCER cb = Some cer \<and> rs = [r] \<and> fileNameSuffix r = [] \<and>
    pem_Decode (content r) = Some (\<lparr>pemType = ''CERTIFICATE'', pemHeaders = [], pemBytes = cer\<rparr>, [])"
proof -
  from assms obtain cb where "GetCertificate sdk c (ObjectName kv) (ObjectVersion kv) v = (Inr cb, v')"
    "certObjects (CertificateIDVersion sdk) cb = Inr rs"
    by (auto simp: getCertificate_def split: prod.splits sum.splits)
  then show ?thesis
    by (auto simp: certObjects_eq_Inr pem_Decode_single) (simp add: certBlock_def CertificateType_def)
qed

text \<open>
  Property C12. The file of a key object is one PEM block of type PUBLIC KEY, and a reader that
  decodes its DER gets the vault's key: an RSA key with the vault's modulus and the low 64 bits of
  its exponent, or a point of one of the three supported curves; any other kind of key, and a pair
  of coordinates that is not on its curve, is an error.
\<close>

theorem getKey_roundtrip:
  assumes "getKey sdk lib c kv v = (Inr rs, v')"
  shows "\<exists>kb key pKey der r. GetKey sdk c (ObjectName kv) (ObjectVersion kv) v = (Inr kb, v') \<and>
    kbKey kb = Some key \<and> rs = [r] \<and>
    pem_Decode (content r) = Some (\<lparr>pemType = ''PUBLIC KEY'', pemHeaders = [], pemBytes = der\<rparr>, []) \<and>
    (length (jwkN key) < 2 ^ 31 \<longrightarrow> parsePKIX der = Some pKey) \<and>
    (jwkKty key \<in> {Some ''RSA'', Some ''RSA-HSM''} \<and>
       pKey = RSAPublicKey (bigEndian (jwkN key)) (sint (of_nat (bigEndian (jwkE key)) :: 64 word)) \<or>
     jwkKty key \<in> {Some ''EC'', Some ''EC-HSM''} \<and>
       (\<exists>crv. (jwkCrv key, crv) \<in> {(Some ''P-256'', P256), (Some ''P-384'', P384), (Some ''P-521'', P521)} \<and>
         IsOnCurve crv (bigEndian (jwkX key)) (bigEndian (jwkY key)) \<and>
         pKey = ECPublicKey (bigEndian (jwkX key)) (bigEndian (jwkY key)) crv))"
proof -
  from assms obtain kb where g: "GetKey sdk c (ObjectName kv) (ObjectVersion kv) v = (Inr kb, v')"
    and "keyObjects lib (KeyIDVersion sdk) kv kb = Inr rs"
    by (auto simp: getKey_def split: prod.splits sum.splits)
  then obtain key ident pKey der where k: "kbKey kb = Some key" "jwkPublicKey kv key = Inr pKey"
    "MarshalPKIXPublicKey pKey = Inr der"
    "rs = [\<lparr>content = EncodeToMemory (pubKeyBlock der), fileNameSuffix = [], version = KeyIDVersion sdk ident\<rparr>]"
    by (auto simp: keyObjects_eq_Inr)
  have "goodBlock (pubKeyBlock der)" by (simp add: goodBlock_def pubKeyBlock_def)
  from pem_Decode_single[OF this]
  have pem: "pem_Decode (EncodeToMemory (pubKeyBlock der)) = Some (\<lparr>pemType = ''PUBLIC KEY'', pemHeaders = [], pemBytes = der\<rparr>, [])"
    by (simp add: pubKeyBlock_def)
  have dec: "length (jwkN key) < 2 ^ 31 \<longrightarrow> parsePKIX der = Some pKey"
    using parsePKIX_marshal[OF k(3) jwk_encodable[OF k(2)]] by blast
  have on: "IsOnCurve crv x y" if "pKey = ECPublicKey x y crv" for x y crv using k(3) that by (simp split: if_splits)
  have "jwkKty key \<in> {Some ''RSA'', Some ''RSA-HSM''} \<and>
       pKey = RSAPublicKey (bigEndian (jwkN key)) (sint (of_nat (bigEndian (jwkE key)) :: 64 word)) \<or>
     jwkKty key \<in> {Some ''EC'', Some ''EC-HSM''} \<and>
       (\<exists>crv. (jwkCrv key, crv) \<in> {(Some ''P-256'', P256), (Some ''P-384'', P384), (Some ''P-521'', P521)} \<and>
         pKey = ECPublicKey (bigEndian (jwkX key)) (bigEndian (jwkY key)) crv)"
    using k(2) by (auto simp: jwkPublicKey_def getCurve_def result_simps split: option.splits if_splits)
  then have kind: "jwkKty key \<in> {Some ''RSA'', Some ''RSA-HSM''} \<and>
       pKey = RSAPublicKey (bigEndian (jwkN key)) (sint (of_nat (bigEndian (jwkE key)) :: 64 word)) \<or>
     jwkKty key \<in> {Some ''EC'', Some ''EC-HSM''} \<and>
       (\<exists>crv. (jwkCrv key, crv) \<in> {(Some ''P-256'', P256), (Some ''P-384'', P384), (Some ''P-521'', P521)} \<and>
         IsOnCurve crv (bigEndian (jwkX key)) (bigEndian (jwkY key)) \<and>
         pKey = ECPublicKey (bigEndian (jwkX key)) (bigEndian (jwkY key)) crv)"
    using on by blast
  show ?thesis
    by (rule exI[of _ kb], rule exI[of _ key], rule exI[of _ pKey], rule exI[of _ der], rule exI[of _ "hd rs"])
      (use g k(1,4) pem dec kind in \<open>simp only: list.sel kvContent.simps simp_thms\<close>)
qed

text \<open>
  The content of an encoded secret comes back as its bytes: what was put into the
  vault in base64, in hex or as text is decoded to the original, with the encoding's name in any
  case, and for keys and certificates the content is never changed.
\<close>

lemma getContentBytes_roundtrip:
  "(EqualFold enc ObjectEncodingBase64 \<longrightarrow> getContentBytes (b64Encode bs) VaultObjectTypeSecret enc = Inr bs) \<and>
   (EqualFold enc ObjectEncodingHex \<longrightarrow> getContentBytes (hexEncode bs) VaultObjectTypeSecret enc = Inr bs) \<and>
   (EqualFold enc ObjectEncodingUtf8 \<or> enc = [] \<longrightarrow> getContentBytes bs VaultObjectTypeSecret enc = Inr bs) \<and>
   getContentBytes bs VaultObjectTypeKey enc = Inr bs \<and>
   getContentBytes bs VaultObjectTypeCertificate enc = Inr bs"
proof -
  have t: "\<not> EqualFold VaultObjectTypeKey VaultObjectTypeSecret" "\<not> EqualFold VaultObjectTypeCertificate VaultObjectTypeSecret"
    by code_simp+
  have "base64_DecodeString (b64Encode bs) = Inr bs" by (simp add: base64_roundtrip_newlines)
  moreover have "\<not> EqualFold enc ObjectEncodingUtf8" "enc \<noteq> []" if "EqualFold enc ObjectEncodingBase64"
    using that encodings_differ(1,4) EqualFold_trans by blast+
  moreover have "\<not> EqualFold enc ObjectEncodingUtf8" "\<not> EqualFold enc ObjectEncodingBase64" "enc \<noteq> []"
    if "EqualFold enc ObjectEncodingHex"
    using that encodings_differ(2,3,5) EqualFold_trans by blast+
  ultimately show ?thesis using t by (auto simp: getContentBytes_def hex_roundtrip_aux)
qed

text \<open>
  Validation makes decoding safe: for a validated object the only errors of decoding
  its content are those of the base64 and hex decoders, and an object that is not a secret has
  none.
\<close>

lemma validated_content_errors:
  assumes "validate kv = Inr ()" "getContentBytes cont (ObjectType kv) (ObjectEncoding kv) = Inl e"
  shows "ObjectType kv = ''secret'' \<and>
    (base64_DecodeString cont = Inl e \<or> hex_DecodeString cont = Inl e)"
proof -
  have "ObjectEncoding kv \<noteq> []" using assms(2) by (auto simp: getContentBytes_def)
  from validate_encoding[OF assms(1) this] assms(2) show ?thesis
    by (auto simp: getContentBytes_def VaultObjectTypeSecret_def split: if_splits)
qed

section \<open>Witnesses\<close>

definition toyProvider :: provider where
  "toyProvider = \<lparr>constructPEMChain = False, writeCertAndKeyInSeparateFiles = True,
     defaultCloudEnvironment = \<lparr>KeyVaultEndpoint = ''https://vault.azure.net/'',
       ActiveDirectoryEndpoint = ''https://login.microsoftonline.com/'', KeyVaultDNSSuffix = ''vault.azure.net''\<rparr>\<rparr>"

definition toyObject :: "string \<Rightarrow> string \<Rightarrow> keyVaultObject" where
  "toyObject ty enc = \<lparr>ObjectName = ''s'', ObjectAlias = [], ObjectVersion = [], ObjectVersionHistory = 0,
     ObjectType = ty, ObjectFormat = [], ObjectEncoding = enc, FilePermission = []\<rparr>"

text \<open>A vault whose secret backs a certificate and which has a key and a certificate.\<close>

definition toyFullSdk :: "(unit, unit, nat) kvSdk" where
  "toyFullSdk = toyKvSdk\<lparr>
     SdkGetSecret := (\<lambda>h n v s. (Inr \<lparr>sbValue = Some [], sbID = Some ''v1'', sbKid = Some ''k'',
        sbContentType = Some CertTypePfx\<rparr>, s)),
     SdkGetKey := (\<lambda>h n v s. (Inr \<lparr>kbKey = Some \<lparr>jwkKID = Some ''v1'', jwkKty = Some ''RSA'', jwkN = ''N'',
        jwkE = [CHR 0x01, CHR 0x00, CHR 0x01], jwkX = [], jwkY = [], jwkCrv = None\<rparr>\<rparr>, s)),
     SdkGetCertificate := (\<lambda>h n v s. (Inr \<lparr>cbCER = Some ''DER'', cbID = Some ''v1''\<rparr>, s))\<rparr>"

lemma toy_getSecret:
  "\<exists>rs. getSecret toyFullSdk toyLib toyProvider toyClient (toyObject ''secret'' []) () = (Inr rs, ()) \<and> length rs = 3"
proof -
  obtain cont where "decodePKCS12 toyLib False [] = Inr cont"
    using toy_keys toy_raw by (simp add: decodePKCS12_def pkcs12_fold)
  moreover have "\<not> EqualFold [] ObjectFormatPFX" by code_simp
  ultimately show ?thesis
    by (simp add: getSecret_def GetSecret_def toyFullSdk_def toyKvSdk_def secretObjects_def certSecretContent_def
        toyProvider_def toyObject_def CertTypePem_def CertTypePfx_def Let_def split: prod.splits)
qed

lemma getSecret_files_witness:
  "\<exists>main. getSecret toyFullSdk toyLib toyProvider toyClient (toyObject ''secret'' []) () =
     (Inr [main\<lparr>content := fst (splitCertAndKey (content main)), fileNameSuffix := ''.crt''\<rparr>,
           main\<lparr>content := snd (splitCertAndKey (content main)), fileNameSuffix := ''.key''\<rparr>, main], ())"
proof -
  obtain rs where rs: "getSecret toyFullSdk toyLib toyProvider toyClient (toyObject ''secret'' []) () = (Inr rs, ())"
    "length rs = 3" using toy_getSecret by blast
  from getSecret_files[OF rs(1)] rs show ?thesis by (auto split: if_splits)
qed

theorem getCertificate_roundtrip_witness:
  "\<exists>r. getCertificate toyFullSdk toyClient (toyObject ''cert'' []) () = (Inr [r], ()) \<and>
     pem_Decode (content r) = Some (\<lparr>pemType = ''CERTIFICATE'', pemHeaders = [], pemBytes = ''DER''\<rparr>, [])"
proof -
  obtain rs where rs: "getCertificate toyFullSdk toyClient (toyObject ''cert'' []) () = (Inr rs, ())"
    by (simp add: getCertificate_def GetCertificate_def toyFullSdk_def certObjects_def)
  from getCertificate_roundtrip[OF this] this show ?thesis
    by (auto simp: GetCertificate_def toyFullSdk_def)
qed

theorem getKey_roundtrip_witness:
  "\<exists>r der. getKey toyFullSdk toyLib toyClient (toyObject ''key'' []) () = (Inr [r], ()) \<and>
     pem_Decode (content r) = Some (\<lparr>pemType = ''PUBLIC KEY'', pemHeaders = [], pemBytes = der\<rparr>, []) \<and>
     parsePKIX der = Some (RSAPublicKey 78 65537)"
proof -
  obtain rs where rs: "getKey toyFullSdk toyLib toyClient (toyObject ''key'' []) () = (Inr rs, ())"
    by (simp add: getKey_def GetKey_def toyFullSdk_def keyObjects_def jwkPublicKey_def)
  have "bigEndian ''N'' = 78" "bigEndian [CHR 0x01, CHR 0x00, CHR 0x01] = 65537" by (simp_all add: bigEndian_def)
  with getKey_roundtrip[OF rs] rs show ?thesis by (auto simp: GetKey_def toyFullSdk_def)
qed

lemma getContentBytes_roundtrip_witness:
  "getContentBytes (b64Encode ''abc'') VaultObjectTypeSecret ''Base64'' = Inr ''abc'' \<and>
   getContentBytes (hexEncode ''abc'') VaultObjectTypeSecret ''HEX'' = Inr ''abc''"
proof -
  have "EqualFold ''Base64'' ObjectEncodingBase64" "EqualFold ''HEX'' ObjectEncodingHex" by code_simp+
  then show ?thesis
    using getContentBytes_roundtrip[of "''Base64''" "''abc''"] getContentBytes_roundtrip[of "''HEX''" "''abc''"] by blast
qed

lemma validated_content_errors_witness:
  "hex_DecodeString ''abc'' = Inl ErrLength"
proof -
  have v: "validate (toyObject ''secret'' ''hex'') = Inr ()" by code_simp
  have e: "getContentBytes ''abc'' (ObjectType (toyObject ''secret'' ''hex'')) (ObjectEncoding (toyObject ''secret'' ''hex''))
      = Inl ErrLength" by code_simp
  have "base64_DecodeString ''abc'' \<noteq> Inl ErrLength" by code_simp
  with validated_content_errors[OF v e] show ?thesis by blast
qed

end
