(* ===== verification/Utf8.thy ===== *)
theory Utf8
  imports GoStrings
begin

text \<open>
  Runes of a Go string: how \<open>range\<close>, \<open>regexp\<close> and \<open>encoding/json\<close> cut a byte string.
  A byte that starts no valid UTF-8 sequence is a rune of its own.
\<close>

definition inRange :: "nat \<Rightarrow> nat \<Rightarrow> char \<Rightarrow> bool" where
  "inRange lo hi c \<longleftrightarrow> lo \<le> (of_char c :: nat) \<and> (of_char c :: nat) \<le> hi"

abbreviation isCont :: "char \<Rightarrow> bool" where
  "isCont \<equiv> inRange 0x80 0xBF"

text \<open>The length of the valid sequence at the front, if there is one.\<close>

fun validLen :: "bytes \<Rightarrow> nat option" where
  "validLen [] = None"
| "validLen (a # s) =
     (let n = of_char a :: nat in
      if n < 0x80 then Some 1
      else if 0xC2 \<le> n \<and> n \<le> 0xDF then
        (case s of b # _ \<Rightarrow> if isCont b then Some 2 else None | _ \<Rightarrow> None)
      else if 0xE0 \<le> n \<and> n \<le> 0xEF then
        (case s of b # c # _ \<Rightarrow>
           if inRange (if n = 0xE0 then 0xA0 else 0x80) (if n = 0xED then 0x9F else 0xBF) b \<and> isCont c
           then Some 3 else None
         | _ \<Rightarrow> None)
      else if 0xF0 \<le> n \<and> n \<le> 0xF4 then
        (case s of b # c # d # _ \<Rightarrow>
           if inRange (if n = 0xF0 then 0x90 else 0x80) (if n = 0xF4 then 0x8F else 0xBF) b \<and> isCont c \<and> isCont d
           then Some 4 else None
         | _ \<Rightarrow> None)
      else None)"

definition runeLen :: "bytes \<Rightarrow> nat" where
  "runeLen s = (case validLen s of None \<Rightarrow> 1 | Some n \<Rightarrow> n)"

lemma validLen_bounds: "validLen s = Some n \<Longrightarrow> 0 < n \<and> n \<le> length s"
  by (cases s) (auto simp: Let_def split: if_splits list.splits)

declare validLen.simps [simp del]

lemma runeLen_bounds: "s \<noteq> [] \<Longrightarrow> 0 < runeLen s \<and> runeLen s \<le> length s"
  by (auto simp: runeLen_def Suc_le_eq split: option.splits dest: validLen_bounds)

function runes :: "bytes \<Rightarrow> bytes list" where
  "runes s = (if s = [] then [] else take (runeLen s) s # runes (drop (runeLen s) s))"
  by pat_completeness auto
termination
  using runeLen_bounds by (relation "measure length") auto

declare runes.simps [simp del]

lemma concat_runes [simp]: "concat (runes s) = s"
proof (induction s rule: runes.induct)
  case (1 s)
  then show ?case by (cases "s = []") (simp_all add: runes.simps[of s] runes.simps[of "[]"])
qed

lemma runes_not_Nil: "r \<in> set (runes s) \<Longrightarrow> r \<noteq> []"
proof (induction s rule: runes.induct)
  case (1 s)
  then show ?case using runeLen_bounds[of s]
    by (cases "s = []") (auto simp: runes.simps[of s] runes.simps[of "[]"])
qed

text \<open>An ASCII string is cut into its bytes.\<close>

lemma runes_ascii: "(\<And>c. c \<in> set s \<Longrightarrow> (of_char c :: nat) < 0x80) \<Longrightarrow> runes s = map (\<lambda>c. [c]) s"
proof (induction s)
  case Nil
  then show ?case by (simp add: runes.simps)
next
  case (Cons a s)
  then have "runeLen (a # s) = 1" by (simp add: runeLen_def validLen.simps)
  with Cons show ?case by (simp add: runes.simps[of "a # s"])
qed

end
