(* ===== verification/Json.thy ===== *)
theory Json
  imports Utf8 Encoding KeyVaultTypes "HOL-Library.AList"
begin

text \<open>
  \<open>encoding/json\<close> as the server uses it: decoding a JSON text into a map from strings to strings
  and into a 32-bit number, and encoding strings. Decoding is a lexer and a machine with a stack
  that takes one token at a time, so both are total. What kind of syntax or type error it is, and
  where, is not modelled.
\<close>

section \<open>Values and tokens\<close>

text \<open>A string has its text between the quotes and what that text stands for.\<close>

datatype json =
    JNull
  | JBool bool
  | JNumber string
  | JString bytes bytes
  | JArray "json list"
  | JObject "(bytes \<times> json) list"

datatype jtoken = TLBrace | TRBrace | TLBracket | TRBracket | TColon | TComma | TLit json

section \<open>Strings\<close>

fun hex4 :: "bytes \<Rightarrow> (nat \<times> bytes) option" where
  "hex4 (a # b # c # d # s) =
     (case (hexVal a, hexVal b, hexVal c, hexVal d) of
        (Some w, Some x, Some y, Some z) \<Rightarrow> Some (((w * 16 + x) * 16 + y) * 16 + z, s)
      | _ \<Rightarrow> None)"
| "hex4 s = None"

definition utf8Encode :: "nat \<Rightarrow> bytes" where
  "utf8Encode n =
     (if n < 0x80 then [char_of n]
      else if n < 0x800 then [char_of (0xC0 + n div 0x40), char_of (0x80 + n mod 0x40)]
      else if n < 0x10000 then
        [char_of (0xE0 + n div 0x1000), char_of (0x80 + n div 0x40 mod 0x40), char_of (0x80 + n mod 0x40)]
      else
        [char_of (0xF0 + n div 0x40000), char_of (0x80 + n div 0x1000 mod 0x40),
         char_of (0x80 + n div 0x40 mod 0x40), char_of (0x80 + n mod 0x40)])"

definition replacement :: bytes where
  "replacement = [CHR 0xEF, CHR 0xBF, CHR 0xBD]"

definition quote :: char where
  "quote = CHR 0x22"

definition backslash :: char where
  "backslash = CHR 0x5C"

definition simpleEscape :: "char \<Rightarrow> char option" where
  "simpleEscape e =
     (if e = quote \<or> e = backslash \<or> e = CHR ''/'' then Some e
      else if e = CHR ''b'' then Some (CHR 0x08)
      else if e = CHR ''f'' then Some (CHR 0x0C)
      else if e = CHR ''n'' then Some (CHR 0x0A)
      else if e = CHR ''r'' then Some (CHR 0x0D)
      else if e = CHR ''t'' then Some (CHR 0x09)
      else None)"

text \<open>
  The rune of a \<open>\u\<close> escape and what follows: a pair of surrogate escapes is one rune, any other
  surrogate is replaced and what follows it is read again.
\<close>

definition unicodeEscape :: "bytes \<Rightarrow> (bytes \<times> bytes) option" where
  "unicodeEscape s =
     (case hex4 s of
        None \<Rightarrow> None
      | Some (n, r) \<Rightarrow>
          if 0xD800 \<le> n \<and> n \<le> 0xDFFF then
            (case r of
               a # b # r' \<Rightarrow>
                 if a = backslash \<and> b = CHR ''u'' then
                   (case hex4 r' of
                      Some (m, r'') \<Rightarrow>
                        if n \<le> 0xDBFF \<and> 0xDC00 \<le> m \<and> m \<le> 0xDFFF
                        then Some (utf8Encode (0x10000 + (n - 0xD800) * 0x400 + (m - 0xDC00)), r'')
                        else Some (replacement, r)
                    | None \<Rightarrow> Some (replacement, r))
                 else Some (replacement, r)
             | _ \<Rightarrow> Some (replacement, r))
          else Some (utf8Encode n, r))"

lemma hex4_shorter: "hex4 s = Some (n, r) \<Longrightarrow> length r < length s"
  by (induction s rule: hex4.induct) (auto split: option.splits)

lemma unicodeEscape_shorter: "unicodeEscape s = Some (x, r) \<Longrightarrow> length r < length s"
  by (auto simp: unicodeEscape_def split: option.splits if_splits list.splits dest!: hex4_shorter)

text \<open>One step behind the opening quote: the end, some decoded bytes and the rest, or an error.\<close>

datatype strStep = SEnd bytes | SEmit bytes bytes | SFail

definition strNext :: "bytes \<Rightarrow> strStep" where
  "strNext t =
     (case t of
        [] \<Rightarrow> SFail
      | c # s \<Rightarrow>
          if c = quote then SEnd s
          else if c = backslash then
            (case s of
               [] \<Rightarrow> SFail
             | e # s' \<Rightarrow>
                 if e = CHR ''u'' then
                   (case unicodeEscape s' of None \<Rightarrow> SFail | Some (x, r) \<Rightarrow> SEmit x r)
                 else (case simpleEscape e of None \<Rightarrow> SFail | Some d \<Rightarrow> SEmit [d] s'))
          else if (of_char c :: nat) < 0x20 then SFail
          else (case validLen t of
                  None \<Rightarrow> SEmit replacement s
                | Some n \<Rightarrow> SEmit (take n t) (drop n t)))"

lemma strNext_shorter:
  "strNext t = SEmit x r \<Longrightarrow> length r < length t" "strNext t = SEnd r \<Longrightarrow> length r < length t"
  using unicodeEscape_shorter validLen_bounds[of t]
  by (fastforce simp: strNext_def split: list.splits if_splits option.splits)+

text \<open>The text of a string behind its opening quote, decoded, and what follows the closing quote.\<close>

function strBody :: "bytes \<Rightarrow> (bytes \<times> bytes) option" where
  "strBody s =
     (case strNext s of
        SEnd r \<Rightarrow> Some ([], r)
      | SEmit x r \<Rightarrow> map_option (\<lambda>(d, r'). (x @ d, r')) (strBody r)
      | SFail \<Rightarrow> None)"
  by pat_completeness auto
termination
  by (relation "measure length") (auto dest: strNext_shorter)

declare strBody.simps [simp del]

lemma strBody_shorter: "strBody s = Some (x, r) \<Longrightarrow> length r < length s"
proof (induction s arbitrary: x rule: strBody.induct)
  case (1 s)
  show ?case
  proof (cases "strNext s")
    case (SEnd r')
    with 1(2) strNext_shorter(2)[of s r'] show ?thesis by (auto simp: strBody.simps[of s])
  next
    case (SEmit y r')
    with 1(2) obtain d where "strBody r' = Some (d, r)" by (auto simp: strBody.simps[of s])
    with 1(1)[OF SEmit] strNext_shorter(1)[OF SEmit] show ?thesis by fastforce
  qed (use 1(2) in \<open>auto simp: strBody.simps[of s]\<close>)
qed

section \<open>Numbers\<close>

definition isDigit :: "char \<Rightarrow> bool" where
  "isDigit c \<longleftrightarrow> 48 \<le> (of_char c :: nat) \<and> (of_char c :: nat) \<le> 57"

definition digits :: "bytes \<Rightarrow> bytes \<times> bytes" where
  "digits s = (takeWhile isDigit s, dropWhile isDigit s)"

text \<open>At least one digit.\<close>

definition digits1 :: "bytes \<Rightarrow> (bytes \<times> bytes) option" where
  "digits1 s = (if fst (digits s) = [] then None else Some (digits s))"

definition intPart :: "bytes \<Rightarrow> (bytes \<times> bytes) option" where
  "intPart s = (case s of c # r \<Rightarrow> if c = CHR ''0'' then Some ([c], r) else digits1 s | [] \<Rightarrow> None)"

definition fracPart :: "bytes \<Rightarrow> (bytes \<times> bytes) option" where
  "fracPart s =
     (case s of
        c # r \<Rightarrow> if c = CHR ''.'' then map_option (\<lambda>(d, r'). (c # d, r')) (digits1 r) else Some ([], s)
      | [] \<Rightarrow> Some ([], []))"

definition expPart :: "bytes \<Rightarrow> (bytes \<times> bytes) option" where
  "expPart s =
     (case s of
        c # r \<Rightarrow>
          if c = CHR ''e'' \<or> c = CHR ''E'' then
            (case r of
               d # r' \<Rightarrow>
                 if d = CHR ''+'' \<or> d = CHR ''-'' then map_option (\<lambda>(x, r''). (c # d # x, r'')) (digits1 r')
                 else map_option (\<lambda>(x, r''). (c # x, r'')) (digits1 r)
             | [] \<Rightarrow> None)
          else Some ([], s)
      | [] \<Rightarrow> Some ([], []))"

definition lexNumber :: "bytes \<Rightarrow> (bytes \<times> bytes) option" where
  "lexNumber s =
     (let (sign, s1) = (if prefix ''-'' s then (''-'', tl s) else ([], s)) in
      case intPart s1 of
        None \<Rightarrow> None
      | Some (i, s2) \<Rightarrow>
          (case fracPart s2 of
             None \<Rightarrow> None
           | Some (f, s3) \<Rightarrow>
               (case expPart s3 of None \<Rightarrow> None | Some (e, s4) \<Rightarrow> Some (sign @ i @ f @ e, s4))))"

lemma digits1_shorter: "digits1 s = Some (d, r) \<Longrightarrow> length r < length s"
proof -
  assume "digits1 s = Some (d, r)"
  then have "d \<noteq> []" "s = d @ r" by (auto simp: digits1_def digits_def split: if_splits)
  then show ?thesis by simp
qed

lemma number_parts_shorter:
  "intPart s = Some (d, r) \<Longrightarrow> length r < length s" "fracPart s = Some (d, r) \<Longrightarrow> length r \<le> length s"
  "expPart s = Some (d, r) \<Longrightarrow> length r \<le> length s"
  by (auto simp: intPart_def fracPart_def expPart_def split: list.splits if_splits dest!: digits1_shorter)

lemma lexNumber_shorter:
  assumes "lexNumber s = Some (n, r)"
  shows "length r < length s"
proof -
  let ?s1 = "if prefix ''-'' s then tl s else s"
  from assms obtain i s2 f s3 e where "intPart ?s1 = Some (i, s2)" "fracPart s2 = Some (f, s3)" "expPart s3 = Some (e, r)"
    by (auto simp: lexNumber_def split: if_splits option.splits prod.splits)
  then have "length s2 < length ?s1" "length s3 \<le> length s2" "length r \<le> length s3"
    by (auto dest: number_parts_shorter)
  moreover have "length ?s1 \<le> length s" by simp
  ultimately show ?thesis by linarith
qed

section \<open>Tokens\<close>

definition isSpace :: "char \<Rightarrow> bool" where
  "isSpace c \<longleftrightarrow> c \<in> {CHR 0x20, CHR 0x09, CHR 0x0D, CHR 0x0A}"

definition lexToken :: "bytes \<Rightarrow> (jtoken \<times> bytes) option" where
  "lexToken t =
     (case t of
        [] \<Rightarrow> None
      | c # s \<Rightarrow>
          if c = CHR ''{'' then Some (TLBrace, s)
          else if c = CHR ''}'' then Some (TRBrace, s)
          else if c = CHR ''['' then Some (TLBracket, s)
          else if c = CHR '']'' then Some (TRBracket, s)
          else if c = CHR '':'' then Some (TColon, s)
          else if c = CHR '','' then Some (TComma, s)
          else if c = quote then map_option (\<lambda>(x, r). (TLit (JString (take (length s - length r - 1) s) x), r)) (strBody s)
          else if prefix ''true'' t then Some (TLit (JBool True), drop 4 t)
          else if prefix ''false'' t then Some (TLit (JBool False), drop 5 t)
          else if prefix ''null'' t then Some (TLit JNull, drop 4 t)
          else map_option (\<lambda>(x, r). (TLit (JNumber x), r)) (lexNumber t))"

lemma lexToken_shorter:
  assumes "lexToken t = Some (k, r)"
  shows "length r < length t"
proof (cases t)
  case (Cons c s)
  from assms consider "r = s" | x where "strBody s = Some (x, r)" | "r = drop 4 t" | "r = drop 5 t"
    | x where "lexNumber t = Some (x, r)"
    unfolding lexToken_def Cons list.case by (auto split: if_splits)
  then show ?thesis
  proof cases
    case 2
    with strBody_shorter[OF 2] Cons show ?thesis by simp
  next
    case 5
    then show ?thesis by (rule lexNumber_shorter)
  qed (use Cons in auto)
qed (use assms in \<open>simp add: lexToken_def\<close>)

function lexJson :: "bytes \<Rightarrow> jtoken list option" where
  "lexJson s =
     (let t = dropWhile isSpace s in
      if t = [] then Some []
      else (case lexToken t of
              None \<Rightarrow> None
            | Some (k, r) \<Rightarrow> map_option ((#) k) (lexJson r)))"
  by pat_completeness auto
termination
proof (relation "measure length", goal_cases)
  case (2 s t kr k r)
  then have "length r < length (dropWhile isSpace s)" using lexToken_shorter by auto
  moreover have "length (dropWhile isSpace s) \<le> length s" by (rule length_dropWhile_le)
  ultimately show ?case by simp
qed simp

declare lexJson.simps [simp del]

section \<open>The machine\<close>

text \<open>
  Open arrays, and open objects with the key whose value is being read; the machine waits for a
  value, for a value or the end of an array, for a key (or, at the start, the end of the object),
  for a colon, or it has just read a value.
\<close>

datatype jframe = FArr "json list" | FObj "(bytes \<times> json) list" bytes

datatype jmode = MValue | MArrStart | MKey bool "(bytes \<times> json) list" | MColon "(bytes \<times> json) list" bytes | MAfter json

type_synonym jconfig = "jframe list \<times> jmode"

definition maxNestingDepth :: nat where
  "maxNestingDepth = 10000"

fun startValue :: "jframe list \<Rightarrow> jtoken \<Rightarrow> jconfig option" where
  "startValue fs (TLit v) = Some (fs, MAfter v)"
| "startValue fs TLBracket = (if length fs < maxNestingDepth then Some (FArr [] # fs, MArrStart) else None)"
| "startValue fs TLBrace = (if length fs < maxNestingDepth then Some (fs, MKey True []) else None)"
| "startValue fs _ = None"

fun jstep :: "jconfig \<Rightarrow> jtoken \<Rightarrow> jconfig option" where
  "jstep (fs, MValue) t = startValue fs t"
| "jstep (FArr vs # fs, MArrStart) TRBracket = Some (fs, MAfter (JArray vs))"
| "jstep (fs, MArrStart) t = startValue fs t"
| "jstep (fs, MKey start ps) (TLit (JString raw k)) = Some (fs, MColon ps k)"
| "jstep (fs, MKey True ps) TRBrace = Some (fs, MAfter (JObject ps))"
| "jstep (fs, MColon ps k) TColon = Some (FObj ps k # fs, MValue)"
| "jstep (FArr vs # fs, MAfter v) TComma = Some (FArr (vs @ [v]) # fs, MValue)"
| "jstep (FArr vs # fs, MAfter v) TRBracket = Some (fs, MAfter (JArray (vs @ [v])))"
| "jstep (FObj ps k # fs, MAfter v) TComma = Some (fs, MKey False (ps @ [(k, v)]))"
| "jstep (FObj ps k # fs, MAfter v) TRBrace = Some (fs, MAfter (JObject (ps @ [(k, v)])))"
| "jstep _ _ = None"

fun jrun :: "jconfig \<Rightarrow> jtoken list \<Rightarrow> jconfig option" where
  "jrun c [] = Some c"
| "jrun c (t # ts) = (case jstep c t of None \<Rightarrow> None | Some c' \<Rightarrow> jrun c' ts)"

definition parseJson :: "bytes \<Rightarrow> json option" where
  "parseJson s =
     (case lexJson s of
        None \<Rightarrow> None
      | Some ts \<Rightarrow>
          (case jrun ([], MValue) ts of Some ([], MAfter v) \<Rightarrow> Some v | _ \<Rightarrow> None))"

section \<open>Decoding into Go values\<close>

definition jsonSyntaxError :: go_error where
  "jsonSyntaxError = External ''json: syntax error''"

definition jsonTypeError :: go_error where
  "jsonTypeError = External ''json: cannot unmarshal''"

text \<open>Into a string: null leaves the zero value, anything but a string is a type error.\<close>

fun stringValue :: "bytes \<times> json \<Rightarrow> (bytes \<times> bytes) result" where
  "stringValue (k, JString raw x) = Inr (k, x)"
| "stringValue (k, JNull) = Inr (k, [])"
| "stringValue (k, v) = Inl jsonTypeError"

text \<open>Into a map from strings to strings: null is the nil map, the last value of a key counts.\<close>

definition unmarshalStringMap :: "bytes \<Rightarrow> (string \<times> string) list option result" where
  "unmarshalStringMap s =
     (case parseJson s of
        None \<Rightarrow> Inl jsonSyntaxError
      | Some JNull \<Rightarrow> Inr None
      | Some (JObject ps) \<Rightarrow>
          rbind (mapE stringValue ps) (\<lambda>kvs. Inr (Some (foldl (\<lambda>m (k, v). AList.update k v m) [] kvs)))
      | Some _ \<Rightarrow> Inl jsonTypeError)"

text \<open>Into an \<open>os.FileMode\<close>: a number without sign, fraction and exponent that fits 32 bits.\<close>

definition unmarshalFileMode :: "bytes \<Rightarrow> int32 result" where
  "unmarshalFileMode s =
     (case parseJson s of
        None \<Rightarrow> Inl jsonSyntaxError
      | Some JNull \<Rightarrow> Inr 0
      | Some (JNumber n) \<Rightarrow>
          if list_all isDigit n \<and> decVal n < 2 ^ 32 then Inr (of_nat (decVal n)) else Inl jsonTypeError
      | Some _ \<Rightarrow> Inl jsonTypeError)"

section \<open>Encoding strings\<close>

definition escapeU :: "nat \<Rightarrow> bytes" where
  "escapeU n = [backslash, CHR ''u'', hexChar (n div 4096), hexChar (n div 256 mod 16), hexChar (n div 16 mod 16), hexChar (n mod 16)]"

definition encAscii :: "char \<Rightarrow> bytes" where
  "encAscii c =
     (if c = quote \<or> c = backslash then [backslash, c]
      else if c = CHR 0x08 then [backslash, CHR ''b'']
      else if c = CHR 0x0C then [backslash, CHR ''f'']
      else if c = CHR 0x0A then [backslash, CHR ''n'']
      else if c = CHR 0x0D then [backslash, CHR ''r'']
      else if c = CHR 0x09 then [backslash, CHR ''t'']
      else if (of_char c :: nat) < 0x20 \<or> c = CHR ''<'' \<or> c = CHR ''>'' \<or> c = CHR 0x26 then escapeU (of_char c)
      else [c])"

definition encRune :: "bytes \<Rightarrow> bytes" where
  "encRune r =
     (if validLen r = None then escapeU 0xFFFD
      else if (of_char (hd r) :: nat) < 0x80 then encAscii (hd r)
      else if r = [CHR 0xE2, CHR 0x80, CHR 0xA8] then escapeU 0x2028
      else if r = [CHR 0xE2, CHR 0x80, CHR 0xA9] then escapeU 0x2029
      else r)"

definition encBody :: "bytes \<Rightarrow> bytes" where
  "encBody s = concat (map encRune (runes s))"

definition encString :: "bytes \<Rightarrow> bytes" where
  "encString s = quote # encBody s @ [quote]"

text \<open>An object, with the encoder of its values.\<close>

definition encMember :: "('a \<Rightarrow> bytes) \<Rightarrow> string \<times> 'a \<Rightarrow> bytes" where
  "encMember enc kv = encString (fst kv) @ CHR '':'' # enc (snd kv)"

definition encObject :: "('a \<Rightarrow> bytes) \<Rightarrow> (string \<times> 'a) list \<Rightarrow> bytes" where
  "encObject enc kvs = CHR ''{'' # join_with '','' (map (encMember enc) kvs) @ ''}''"

definition marshalStringMap :: "(string \<times> string) list \<Rightarrow> bytes" where
  "marshalStringMap = encObject encString"

definition validUtf8 :: "bytes \<Rightarrow> bool" where
  "validUtf8 s \<longleftrightarrow> list_all (\<lambda>r. validLen r = Some (length r)) (runes s)"

section \<open>Round trip\<close>

lemma validLen_append: "validLen r = Some n \<Longrightarrow> validLen (r @ u) = Some n"
  by (cases r) (auto simp: validLen.simps Let_def split: if_splits list.splits)

lemma quote_backslash [simp]: "quote \<noteq> backslash" "backslash \<noteq> quote" "CHR ''u'' \<noteq> quote" "CHR ''u'' \<noteq> backslash"
  by (simp_all add: quote_def backslash_def)

lemma strNext_escapeU:
  assumes "n < 65536" "\<not> (0xD800 \<le> n \<and> n \<le> 0xDFFF)"
  shows "strNext (escapeU n @ u) = SEmit (utf8Encode n) u"
proof -
  have l: "n div 4096 < 16" using assms(1) by (simp add: div_less_iff_less_mult)
  have d: "n div 256 = n div 16 div 16" "n div 4096 = n div 16 div 16 div 16"
    by (simp_all add: div_mult2_eq[symmetric])
  have "((n div 4096 * 16 + n div 256 mod 16) * 16 + n div 16 mod 16) * 16 + n mod 16 = n"
    unfolding d by (simp only: div_mult_mod_eq)
  then have "hex4 (hexChar (n div 4096) # hexChar (n div 256 mod 16) # hexChar (n div 16 mod 16) # hexChar (n mod 16) # u) = Some (n, u)"
    using l by simp
  then show ?thesis using assms(2) by (auto simp: strNext_def escapeU_def unicodeEscape_def)
qed

lemma strNext_encAscii:
  assumes "(of_char c :: nat) < 0x80"
  shows "strNext (encAscii c @ u) = SEmit [c] u"
proof -
  have e: "strNext (escapeU (of_char c) @ u) = SEmit [c] u"
    using strNext_escapeU[of "of_char c" u] assms by (simp add: utf8Encode_def)
  have v: "validLen (c # u) = Some 1" using assms by (simp add: validLen.simps)
  show ?thesis
  proof (cases "c = quote \<or> c = backslash \<or> c \<in> {CHR 0x08, CHR 0x0C, CHR 0x0A, CHR 0x0D, CHR 0x09}")
    case True
    then show ?thesis by (auto simp: encAscii_def strNext_def simpleEscape_def quote_def backslash_def)
  next
    case False
    with e v show ?thesis by (auto simp: encAscii_def strNext_def)
  qed
qed

lemma strNext_encRune:
  assumes "validLen r = Some (length r)"
  shows "strNext (encRune r @ u) = SEmit r u"
proof (cases "(of_char (hd r) :: nat) < 0x80")
  case True
  with assms have "r = [hd r]" by (cases r) (auto simp: validLen.simps)
  with True assms strNext_encAscii[of "hd r" u] show ?thesis by (simp add: encRune_def)
next
  case False
  obtain c s where r: "r = c # s" using assms by (cases r) (auto simp: validLen.simps)
  have "c \<noteq> quote" "c \<noteq> backslash" "\<not> (of_char c :: nat) < 0x20"
    using False r by (auto simp: quote_def backslash_def)
  then have "strNext (r @ u) = SEmit r u"
    using validLen_append[OF assms, of u] r by (simp add: strNext_def)
  moreover have "utf8Encode 0x2028 = [CHR 0xE2, CHR 0x80, CHR 0xA8]" "utf8Encode 0x2029 = [CHR 0xE2, CHR 0x80, CHR 0xA9]"
    by (simp_all add: utf8Encode_def char_of_def bit_0)
  moreover have "strNext (escapeU 0x2028 @ u) = SEmit (utf8Encode 0x2028) u" "strNext (escapeU 0x2029 @ u) = SEmit (utf8Encode 0x2029) u"
    by (rule strNext_escapeU; simp)+
  ultimately show ?thesis using False assms by (auto simp: encRune_def)
qed

lemma strBody_encoded:
  "list_all (\<lambda>r. validLen r = Some (length r)) rs \<Longrightarrow>
   strBody (concat (map encRune rs) @ quote # t) = Some (concat rs, t)"
proof (induction rs)
  case Nil
  then show ?case by (subst strBody.simps) (simp add: strNext_def)
next
  case (Cons r rs)
  then show ?case using strNext_encRune[of r] by (subst strBody.simps) simp
qed

definition strJson :: "bytes \<Rightarrow> json" where
  "strJson s = JString (encBody s) s"

lemma lexToken_encString: "validUtf8 s \<Longrightarrow> lexToken (encString s @ t) = Some (TLit (strJson s), t)"
  using strBody_encoded[of "runes s" t]
  by (simp add: lexToken_def encString_def encBody_def strJson_def validUtf8_def quote_def)

lemma lexJson_token:
  assumes "s \<noteq> []" "\<not> isSpace (hd s)" "lexToken (s @ t) = Some (k, t)"
  shows "lexJson (s @ t) = map_option ((#) k) (lexJson t)"
proof -
  have "dropWhile isSpace (s @ t) = s @ t" using assms(1,2) by (cases s) auto
  then show ?thesis using assms(1,3) by (subst lexJson.simps) simp
qed

lemma lexJson_string: "validUtf8 s \<Longrightarrow> lexJson (encString s @ t) = map_option ((#) (TLit (strJson s))) (lexJson t)"
  by (rule lexJson_token[OF _ _ lexToken_encString]) (simp_all add: encString_def isSpace_def quote_def)

lemma lexJson_punct:
  "lexJson (CHR ''{'' # t) = map_option ((#) TLBrace) (lexJson t)"
  "lexJson (CHR ''}'' # t) = map_option ((#) TRBrace) (lexJson t)"
  "lexJson (CHR '':'' # t) = map_option ((#) TColon) (lexJson t)"
  "lexJson (CHR '','' # t) = map_option ((#) TComma) (lexJson t)"
  using lexJson_token[of "''{''" t TLBrace] lexJson_token[of "''}''" t TRBrace]
    lexJson_token[of "'':''" t TColon] lexJson_token[of "'',''" t TComma]
  by (simp_all add: isSpace_def lexToken_def)

lemma lexJson_Nil: "lexJson [] = Some []"
  by (simp add: lexJson.simps)

text \<open>
  A codec of values: the encoder, the tokens and the value that belong to each other. The lexer
  gives the tokens and the machine, inside an object, the value.
\<close>

definition lexes :: "('a \<Rightarrow> bytes) \<Rightarrow> ('a \<Rightarrow> jtoken list) \<Rightarrow> 'a \<Rightarrow> bool" where
  "lexes enc toks v \<longleftrightarrow> (\<forall>t. lexJson (enc v @ t) = map_option ((@) (toks v)) (lexJson t))"

definition runsTo :: "jframe list \<Rightarrow> ('a \<Rightarrow> jtoken list) \<Rightarrow> ('a \<Rightarrow> json) \<Rightarrow> 'a \<Rightarrow> bool" where
  "runsTo fs toks val v \<longleftrightarrow>
     (\<forall>ps k ts. jrun (FObj ps k # fs, MValue) (toks v @ ts) = jrun (FObj ps k # fs, MAfter (val v)) ts)"

fun memberTokens :: "('a \<Rightarrow> jtoken list) \<Rightarrow> (string \<times> 'a) list \<Rightarrow> jtoken list" where
  "memberTokens toks [] = []"
| "memberTokens toks [(k, v)] = TLit (strJson k) # TColon # toks v"
| "memberTokens toks ((k, v) # kv # kvs) = TLit (strJson k) # TColon # toks v @ TComma # memberTokens toks (kv # kvs)"

lemma lexJson_members:
  "list_all (\<lambda>(k, v). validUtf8 k \<and> lexes enc toks v) kvs \<Longrightarrow>
   lexJson (join_with '','' (map (encMember enc) kvs) @ t) = map_option ((@) (memberTokens toks kvs)) (lexJson t)"
proof (induction toks kvs rule: memberTokens.induct)
  case (1 toks)
  then show ?case by (cases "lexJson t") auto
next
  case (2 toks k v)
  then show ?case
    by (simp add: encMember_def lexes_def lexJson_string lexJson_punct option.map_comp comp_def)
next
  case (3 toks k v kv kvs)
  then show ?case
    by (simp add: encMember_def lexes_def lexJson_string lexJson_punct option.map_comp comp_def)
qed

lemma jrun_members:
  "list_all (\<lambda>(k, v). runsTo fs toks val v) kvs \<Longrightarrow> kvs \<noteq> [] \<Longrightarrow>
   jrun (fs, MKey b ps) (memberTokens toks kvs @ TRBrace # ts) =
     jrun (fs, MAfter (JObject (ps @ map (\<lambda>(k, v). (k, val v)) kvs))) ts"
  by (induction toks kvs arbitrary: b ps rule: memberTokens.induct) (auto simp: strJson_def runsTo_def)

definition objectTokens :: "('a \<Rightarrow> jtoken list) \<Rightarrow> (string \<times> 'a) list \<Rightarrow> jtoken list" where
  "objectTokens toks kvs = TLBrace # memberTokens toks kvs @ [TRBrace]"

definition objectJson :: "('a \<Rightarrow> json) \<Rightarrow> (string \<times> 'a) list \<Rightarrow> json" where
  "objectJson val kvs = JObject (map (\<lambda>(k, v). (k, val v)) kvs)"

lemma lexes_object:
  assumes "list_all (\<lambda>(k, v). validUtf8 k \<and> lexes enc toks v) kvs"
  shows "lexes (encObject enc) (objectTokens toks) kvs"
  unfolding lexes_def encObject_def objectTokens_def
  by (auto simp: lexJson_punct lexJson_members[OF assms] option.map_comp comp_def intro: option.map_cong)

lemma jrun_object:
  assumes "list_all (\<lambda>(k, v). runsTo fs toks val v) kvs" "length fs < maxNestingDepth"
  shows "jrun (fs, MValue) (objectTokens toks kvs @ ts) = jrun (fs, MAfter (objectJson val kvs)) ts"
  using assms jrun_members[OF assms(1)]
  by (cases "kvs = []") (simp_all add: objectTokens_def objectJson_def)

lemma parseJson_object:
  assumes "list_all (\<lambda>(k, v). validUtf8 k \<and> lexes enc toks v \<and> runsTo [] toks val v) kvs"
  shows "parseJson (encObject enc kvs) = Some (objectJson val kvs)"
proof -
  have a: "list_all (\<lambda>(k, v). validUtf8 k \<and> lexes enc toks v) kvs" "list_all (\<lambda>(k, v). runsTo [] toks val v) kvs"
    using assms by (auto simp: list_all_iff)
  have "lexJson (encObject enc kvs) = Some (objectTokens toks kvs)"
    using lexes_object[OF a(1)] unfolding lexes_def by (metis append.right_neutral lexJson_Nil option.simps(9))
  then show ?thesis using jrun_object[OF a(2), of "[]"]
    by (simp add: parseJson_def maxNestingDepth_def)
qed

lemma string_codec:
  "validUtf8 v \<Longrightarrow> lexes encString (\<lambda>v. [TLit (strJson v)]) v" "runsTo fs (\<lambda>v. [TLit (strJson v)]) strJson v"
  by (auto simp: lexes_def runsTo_def lexJson_string intro: option.map_cong)

definition validPair :: "string \<times> string \<Rightarrow> bool" where
  "validPair kv \<longleftrightarrow> validUtf8 (fst kv) \<and> validUtf8 (snd kv)"

lemma parseJson_marshal:
  assumes "list_all validPair kvs"
  shows "parseJson (marshalStringMap kvs) = Some (objectJson strJson kvs)"
  unfolding marshalStringMap_def using assms
  by (intro parseJson_object[where toks = "\<lambda>v. [TLit (strJson v)]"])
    (auto simp: list_all_iff validPair_def string_codec)

lemma mapE_stringValue: "mapE stringValue (map (\<lambda>(k, v). (k, strJson v)) kvs) = Inr kvs"
  by (induction kvs) (auto simp: strJson_def)

lemma foldl_update_distinct:
  "distinct (map fst (m @ kvs)) \<Longrightarrow> foldl (\<lambda>m (k, v). AList.update k v m) m kvs = m @ kvs"
proof (induction kvs arbitrary: m)
  case (Cons kv kvs)
  obtain k v where kv: "kv = (k, v)" by (cases kv)
  have "AList.update k v m = m @ [(k, v)]" if "k \<notin> fst ` set m" for m :: "('a \<times> 'b) list"
    using that by (induction m) auto
  then have "AList.update k v m = m @ [(k, v)]" using Cons.prems kv by auto
  with Cons.IH[of "m @ [(k, v)]"] Cons.prems kv show ?case by simp
qed simp

text \<open>What a Go client encodes is what the server decodes.\<close>

lemma unmarshal_marshal:
  assumes "list_all validPair kvs" "distinct (map fst kvs)"
  shows "unmarshalStringMap (marshalStringMap kvs) = Inr (Some kvs)"
  using assms foldl_update_distinct[of "[]" kvs]
  by (simp add: unmarshalStringMap_def parseJson_marshal objectJson_def mapE_stringValue)

lemma unmarshalStringMap_keys:
  assumes "unmarshalStringMap s = Inr (Some kvs)"
  shows "distinct (map fst kvs)"
proof -
  have "distinct (map fst (foldl (\<lambda>m (k, v). AList.update k v m) m xs))" if "distinct (map fst m)"
    for m xs :: "(string \<times> string) list"
    using that by (induction xs arbitrary: m) (auto simp: distinct_update)
  from this[of "[]"] assms show ?thesis
    by (auto simp: unmarshalStringMap_def result_simps split: option.splits json.splits)
qed

lemma Itoa_leading: "hd (Itoa n) = CHR ''0'' \<Longrightarrow> n = 0"
proof (induction n rule: Itoa.induct)
  case (1 n)
  show ?case
  proof (cases "n < 10")
    case True
    then have "hd (Itoa n) = char_of (48 + n)" by (subst Itoa.simps) simp
    with "1.prems" have "of_char (char_of (48 + n) :: char) = (of_char (CHR ''0'') :: nat)" by simp
    with True show ?thesis by simp
  next
    case False
    have "Itoa n = Itoa (n div 10) @ [char_of (48 + n mod 10)]" using False by (subst Itoa.simps) simp
    with "1.prems" have "hd (Itoa (n div 10)) = CHR ''0''" by simp
    with 1(1)[OF False] False show ?thesis by simp
  qed
qed

lemma lexNumber_Itoa: "lexNumber (Itoa n) = Some (Itoa n, [])"
proof -
  have dig: "list_all isDigit (Itoa n)" using Itoa_digits[of _ n] by (auto simp: list_all_iff isDigit_def)
  then have tw: "takeWhile isDigit (Itoa n) = Itoa n" "dropWhile isDigit (Itoa n) = []"
    by (auto simp: takeWhile_eq_all_conv dropWhile_eq_Nil_conv list_all_iff)
  have "intPart (Itoa n) = Some (Itoa n, [])"
  proof (cases "n = 0")
    case True
    then show ?thesis by (simp add: Itoa.simps intPart_def char_of_def bit_0)
  next
    case False
    then have "hd (Itoa n) \<noteq> CHR ''0''" using Itoa_leading by blast
    then show ?thesis using tw by (cases "Itoa n") (auto simp: intPart_def digits1_def digits_def)
  qed
  moreover have "\<not> prefix ''-'' (Itoa n)" using Itoa_no_char[of "CHR ''-''" n] by (auto simp: prefix_def)
  ultimately show ?thesis by (simp add: lexNumber_def fracPart_def expPart_def)
qed

lemma lexToken_Itoa: "lexToken (Itoa n) = Some (TLit (JNumber (Itoa n)), [])"
proof -
  obtain c s where cs: "Itoa n = c # s" by (cases "Itoa n") auto
  then have c: "48 \<le> (of_char c :: nat) \<and> (of_char c :: nat) \<le> 57" using Itoa_digits[of c n] by simp
  have "c \<noteq> d" if "(of_char d :: nat) < 48 \<or> 57 < (of_char d :: nat)" for d using c that by auto
  then have "c \<notin> {CHR ''{'', CHR ''}'', CHR ''['', CHR '']'', CHR '':'', CHR '','', quote, CHR ''t'', CHR ''f'', CHR ''n''}"
    by (simp add: quote_def)
  then show ?thesis using lexNumber_Itoa[of n] unfolding lexToken_def cs by auto
qed

lemma unmarshalFileMode_Itoa:
  assumes "n < 2 ^ 32"
  shows "unmarshalFileMode (Itoa n) = Inr (of_nat n)"
proof -
  have dig: "list_all isDigit (Itoa n)" using Itoa_digits[of _ n] by (auto simp: list_all_iff isDigit_def)
  then have "\<not> isSpace (hd (Itoa n))" by (cases "Itoa n") (auto simp: isSpace_def isDigit_def)
  with lexJson_token[of "Itoa n" "[]"] have "lexJson (Itoa n) = Some [TLit (JNumber (Itoa n))]"
    by (simp add: lexToken_Itoa lexJson_Nil)
  then have "parseJson (Itoa n) = Some (JNumber (Itoa n))" by (simp add: parseJson_def)
  with assms dig decVal_Itoa[of n] show ?thesis by (simp add: unmarshalFileMode_def)
qed

lemma mapE_stringValue_error: "mapE stringValue ps = Inl e \<Longrightarrow> e = jsonTypeError"
  by (auto simp: mapE_eq_Inl elim!: stringValue.elims)

lemma unmarshal_no_panic:
  "unmarshalStringMap s = Inl e \<Longrightarrow> \<not> is_panic e" "unmarshalFileMode s = Inl e \<Longrightarrow> \<not> is_panic e"
  by (auto simp: unmarshalStringMap_def unmarshalFileMode_def jsonSyntaxError_def jsonTypeError_def result_simps
      split: option.splits json.splits if_splits dest!: mapE_stringValue_error)

end
