(* ===== verification/TokenJson.thy ===== *)
theory TokenJson
  imports Json
begin

text \<open>
  The JSON texts that \<open>pkg/auth\<close> decodes into structs: the service account tokens of a mount
  request and the answer of the NMI server. A member goes to the field of exactly its name, or
  else to one whose name is equal under case folding; members without a field are ignored, null
  leaves a field as it is, and a later member overwrites an earlier one. A \<open>time.Time\<close> is parsed
  from the text between the quotes, without resolving escapes, as RFC 3339 the way Go's
  \<open>time.Parse\<close> accepts it, and is its number of nanoseconds since 1970.
\<close>

section \<open>Times\<close>

definition digitOf :: "char \<Rightarrow> nat" where
  "digitOf c = of_char c - 48"

text \<open>One or two digits; exactly two when \<open>fixed\<close>.\<close>

fun getnum :: "bool \<Rightarrow> bytes \<Rightarrow> (nat \<times> bytes) option" where
  "getnum fixed [] = None"
| "getnum fixed [a] = (if isDigit a \<and> \<not> fixed then Some (digitOf a, []) else None)"
| "getnum fixed (a # b # s) =
     (if \<not> isDigit a then None
      else if \<not> isDigit b then (if fixed then None else Some (digitOf a, b # s))
      else Some (digitOf a * 10 + digitOf b, s))"

definition getyear :: "bytes \<Rightarrow> (nat \<times> bytes) option" where
  "getyear s = (if 4 \<le> length s \<and> list_all isDigit (take 4 s) then Some (decVal (take 4 s), drop 4 s) else None)"

fun expect :: "char \<Rightarrow> bytes \<Rightarrow> bytes option" where
  "expect c [] = None"
| "expect c (a # s) = (if a = c then Some s else None)"

definition isLeap :: "nat \<Rightarrow> bool" where
  "isLeap y \<longleftrightarrow> y mod 4 = 0 \<and> (y mod 100 \<noteq> 0 \<or> y mod 400 = 0)"

definition daysIn :: "nat \<Rightarrow> nat \<Rightarrow> nat" where
  "daysIn m y = (if m = 2 then (if isLeap y then 29 else 28) else if m \<in> {4, 6, 9, 11} then 30 else 31)"

text \<open>A fraction after the seconds: a period or comma and digits, of which nine count.\<close>

definition fraction :: "bytes \<Rightarrow> nat \<times> bytes" where
  "fraction s =
     (case s of
        c # d # r \<Rightarrow>
          if (c = CHR ''.'' \<or> c = CHR '','') \<and> isDigit d then
            (let ds = takeWhile isDigit (d # r); n = min 9 (length ds)
             in (decVal (take n ds) * 10 ^ (9 - n), dropWhile isDigit (d # r)))
          else (0, s)
      | _ \<Rightarrow> (0, s))"

text \<open>The zone at the end, in seconds east: Z, or a sign, hours and minutes.\<close>

definition zone :: "bytes \<Rightarrow> int option" where
  "zone s =
     (if s = ''Z'' then Some 0
      else
        (case s of
           g # h1 # h2 # c # m1 # m2 # [] \<Rightarrow>
             if c = CHR '':'' then
               (case (getnum True [h1, h2], getnum True [m1, m2]) of
                  (Some (hr, _), Some (mm, _)) \<Rightarrow>
                    if hr \<le> 24 \<and> mm \<le> 60 then
                      (if g = CHR ''+'' then Some (int ((hr * 60 + mm) * 60))
                       else if g = CHR ''-'' then Some (- int ((hr * 60 + mm) * 60)) else None)
                    else None
                | _ \<Rightarrow> None)
             else None
         | _ \<Rightarrow> None))"

text \<open>Days since 1970-01-01 of a date of the Gregorian calendar.\<close>

definition unixDays :: "nat \<Rightarrow> nat \<Rightarrow> nat \<Rightarrow> int" where
  "unixDays year month day =
     (let y = int year - (if month \<le> 2 then 1 else 0);
          m = int month + (if month > 2 then - 3 else 9);
          doy = (153 * m + 2) div 5 + int day - 1
      in 365 * y + y div 4 - y div 100 + y div 400 + doy - 719468)"

definition parseTime :: "bytes \<Rightarrow> int option" where
  "parseTime s =
     Option.bind (getyear s) (\<lambda>(year, s).
     Option.bind (expect (CHR ''-'') s) (\<lambda>s.
     Option.bind (getnum True s) (\<lambda>(month, s).
     Option.bind (expect (CHR ''-'') s) (\<lambda>s.
     Option.bind (getnum True s) (\<lambda>(day, s).
     Option.bind (expect (CHR ''T'') s) (\<lambda>s.
     Option.bind (getnum False s) (\<lambda>(hour, s).
     Option.bind (expect (CHR '':'') s) (\<lambda>s.
     Option.bind (getnum True s) (\<lambda>(minute, s).
     Option.bind (expect (CHR '':'') s) (\<lambda>s.
     Option.bind (getnum True s) (\<lambda>(sec, s).
     let (nsec, s) = fraction s in
     Option.bind (zone s) (\<lambda>off.
     if 1 \<le> month \<and> month \<le> 12 \<and> 1 \<le> day \<and> day \<le> daysIn month year \<and> hour < 24 \<and> minute < 60 \<and> sec < 60
     then Some ((unixDays year month day * 86400 + int (hour * 3600 + minute * 60 + sec) - off) * 1000000000 + int nsec)
     else None))))))))))))"

text \<open>The zero \<open>time.Time\<close>: the first of January of the year 1.\<close>

definition zeroTime :: int where
  "zeroTime = - 62135596800000000000"

section \<open>Struct members\<close>

definition fieldOf :: "string list \<Rightarrow> string \<Rightarrow> string option" where
  "fieldOf names key = (if key \<in> set names then Some key else find (\<lambda>n. EqualFold n key) names)"

fun stringField :: "string \<Rightarrow> json \<Rightarrow> string result" where
  "stringField old (JString raw x) = Inr x"
| "stringField old JNull = Inr old"
| "stringField old v = Inl jsonTypeError"

fun timeField :: "int \<Rightarrow> json \<Rightarrow> int result" where
  "timeField old (JString raw x) =
     (case parseTime raw of Some t \<Rightarrow> Inr t | None \<Rightarrow> Inl (External ''parsing time''))"
| "timeField old JNull = Inr old"
| "timeField old v = Inl (External ''Time.UnmarshalJSON: input is not a JSON string'')"

definition isValidNumber :: "string \<Rightarrow> bool" where
  "isValidNumber s \<longleftrightarrow> lexNumber s = Some (s, [])"

fun numberField :: "string \<Rightarrow> json \<Rightarrow> string result" where
  "numberField old (JNumber n) = Inr n"
| "numberField old (JString raw x) =
     (if isValidNumber x then Inr x else Inl (External ''json: invalid number literal''))"
| "numberField old JNull = Inr old"
| "numberField old v = Inl jsonTypeError"

text \<open>An object into a struct; null leaves the struct as it is.\<close>

fun structValue :: "('s \<Rightarrow> string \<times> json \<Rightarrow> 's result) \<Rightarrow> 's \<Rightarrow> json \<Rightarrow> 's result" where
  "structValue member old (JObject ps) = foldE member old ps"
| "structValue member old JNull = Inr old"
| "structValue member old v = Inl jsonTypeError"

section \<open>Service account tokens\<close>

record saToken =
  saTokenToken :: string
  saTokenExpirationTimestamp :: int

definition zeroSaToken :: saToken where
  "zeroSaToken = \<lparr>saTokenToken = [], saTokenExpirationTimestamp = zeroTime\<rparr>"

definition saTokenMember :: "saToken \<Rightarrow> string \<times> json \<Rightarrow> saToken result" where
  "saTokenMember t kv =
     (case fieldOf [''token'', ''expirationTimestamp''] (fst kv) of
        None \<Rightarrow> Inr t
      | Some f \<Rightarrow>
          if f = ''token''
          then rbind (stringField (saTokenToken t) (snd kv)) (\<lambda>x. Inr (t\<lparr>saTokenToken := x\<rparr>))
          else rbind (timeField (saTokenExpirationTimestamp t) (snd kv)) (\<lambda>x. Inr (t\<lparr>saTokenExpirationTimestamp := x\<rparr>)))"

definition unmarshalTokens :: "bytes \<Rightarrow> (string \<rightharpoonup> saToken) result" where
  "unmarshalTokens s =
     (case parseJson s of
        None \<Rightarrow> Inl jsonSyntaxError
      | Some JNull \<Rightarrow> Inr Map.empty
      | Some (JObject ps) \<Rightarrow>
          rbind (mapE (\<lambda>(k, v). rbind (structValue saTokenMember zeroSaToken v) (\<lambda>t. Inr (k, t))) ps)
            (\<lambda>kts. Inr (map_of (rev kts)))
      | Some _ \<Rightarrow> Inl jsonTypeError)"

section \<open>The answer of the NMI server\<close>

record token =
  AccessToken :: string
  RefreshToken :: string
  ExpiresIn :: string
  ExpiresOn :: string
  NotBefore :: string
  TokenResource :: string
  TokenType :: string

record podIdentityResponse =
  pirToken :: token
  pirClientID :: string

definition zeroToken :: token where
  "zeroToken = \<lparr>AccessToken = [], RefreshToken = [], ExpiresIn = [], ExpiresOn = [], NotBefore = [],
     TokenResource = [], TokenType = []\<rparr>"

definition tokenMember :: "token \<Rightarrow> string \<times> json \<Rightarrow> token result" where
  "tokenMember t kv =
     (case fieldOf [''access_token'', ''refresh_token'', ''expires_in'', ''expires_on'', ''not_before'', ''resource'', ''token_type'']
             (fst kv) of
        None \<Rightarrow> Inr t
      | Some f \<Rightarrow>
          if f = ''access_token'' then rbind (stringField (AccessToken t) (snd kv)) (\<lambda>x. Inr (t\<lparr>AccessToken := x\<rparr>))
          else if f = ''refresh_token'' then rbind (stringField (RefreshToken t) (snd kv)) (\<lambda>x. Inr (t\<lparr>RefreshToken := x\<rparr>))
          else if f = ''expires_in'' then rbind (numberField (ExpiresIn t) (snd kv)) (\<lambda>x. Inr (t\<lparr>ExpiresIn := x\<rparr>))
          else if f = ''expires_on'' then rbind (numberField (ExpiresOn t) (snd kv)) (\<lambda>x. Inr (t\<lparr>ExpiresOn := x\<rparr>))
          else if f = ''not_before'' then rbind (numberField (NotBefore t) (snd kv)) (\<lambda>x. Inr (t\<lparr>NotBefore := x\<rparr>))
          else if f = ''resource'' then rbind (stringField (TokenResource t) (snd kv)) (\<lambda>x. Inr (t\<lparr>TokenResource := x\<rparr>))
          else rbind (stringField (TokenType t) (snd kv)) (\<lambda>x. Inr (t\<lparr>TokenType := x\<rparr>)))"

definition responseMember :: "podIdentityResponse \<Rightarrow> string \<times> json \<Rightarrow> podIdentityResponse result" where
  "responseMember r kv =
     (case fieldOf [''token'', ''clientid''] (fst kv) of
        None \<Rightarrow> Inr r
      | Some f \<Rightarrow>
          if f = ''token'' then rbind (structValue tokenMember (pirToken r) (snd kv)) (\<lambda>x. Inr (r\<lparr>pirToken := x\<rparr>))
          else rbind (stringField (pirClientID r) (snd kv)) (\<lambda>x. Inr (r\<lparr>pirClientID := x\<rparr>)))"

text \<open>The target is a pointer to a pointer: null sets the inner one to nil.\<close>

definition unmarshalPodIdentityResponse :: "bytes \<Rightarrow> podIdentityResponse option result" where
  "unmarshalPodIdentityResponse s =
     (case parseJson s of
        None \<Rightarrow> Inl jsonSyntaxError
      | Some JNull \<Rightarrow> Inr None
      | Some v \<Rightarrow>
          rbind (structValue responseMember \<lparr>pirToken = zeroToken, pirClientID = []\<rparr> v) (\<lambda>r. Inr (Some r)))"

lemma null_response: "unmarshalPodIdentityResponse ''null'' = Inr None"
  by code_simp

section \<open>Round trip of the tokens\<close>

text \<open>How the kubelet writes a time: in UTC, to the second.\<close>

record stamp =
  stYear :: nat
  stMonth :: nat
  stDay :: nat
  stHour :: nat
  stMinute :: nat
  stSecond :: nat

definition pad2 :: "nat \<Rightarrow> bytes" where
  "pad2 n = [char_of (48 + n div 10), char_of (48 + n mod 10)]"

definition formatTime :: "stamp \<Rightarrow> bytes" where
  "formatTime t =
     pad2 (stYear t div 100) @ pad2 (stYear t mod 100) @ ''-'' @ pad2 (stMonth t) @ ''-'' @ pad2 (stDay t) @ ''T'' @
     pad2 (stHour t) @ '':'' @ pad2 (stMinute t) @ '':'' @ pad2 (stSecond t) @ ''Z''"

definition validStamp :: "stamp \<Rightarrow> bool" where
  "validStamp t \<longleftrightarrow> stYear t < 10000 \<and> 1 \<le> stMonth t \<and> stMonth t \<le> 12 \<and> 1 \<le> stDay t \<and>
     stDay t \<le> daysIn (stMonth t) (stYear t) \<and> stHour t < 24 \<and> stMinute t < 60 \<and> stSecond t < 60"

definition stampNanos :: "stamp \<Rightarrow> int" where
  "stampNanos t = (unixDays (stYear t) (stMonth t) (stDay t) * 86400 +
     int (stHour t * 3600 + stMinute t * 60 + stSecond t)) * 1000000000"

lemma digit_char:
  assumes "n < 10"
  shows "isDigit (char_of (48 + n))" "digitOf (char_of (48 + n)) = n" "of_char (char_of (48 + n) :: char) = 48 + n"
proof -
  show o: "of_char (char_of (48 + n) :: char) = 48 + n" using assms by simp
  show "isDigit (char_of (48 + n))" "digitOf (char_of (48 + n)) = n" using assms o by (simp_all add: isDigit_def digitOf_def)
qed

lemma getnum_pad2: "n < 100 \<Longrightarrow> getnum fixed (pad2 n @ s) = Some (n, s)"
  using digit_char[of "n div 10"] digit_char[of "n mod 10"] by (simp add: pad2_def)

lemma getyear_digits:
  assumes "a < 10" "b < 10" "c < 10" "d < 10"
  shows "getyear ([char_of (48 + a), char_of (48 + b), char_of (48 + c), char_of (48 + d)] @ s) =
    Some (((a * 10 + b) * 10 + c) * 10 + d, s)"
  using digit_char[OF assms(1)] digit_char[OF assms(2)] digit_char[OF assms(3)] digit_char[OF assms(4)]
  by (simp add: getyear_def)

lemma getyear_pad:
  assumes "n < 10000"
  shows "getyear (pad2 (n div 100) @ pad2 (n mod 100) @ s) = Some (n, s)"
proof -
  have d: "n div 100 div 10 < 10" "n div 100 mod 10 < 10" "n mod 100 div 10 < 10" "n mod 100 mod 10 < 10"
    using assms by auto
  have "((a div 10 * 10 + a mod 10) * 10 + b div 10) * 10 + b mod 10 = a * 100 + b" for a b :: nat
    using div_mult_mod_eq[of b 10] by (simp add: div_mult_mod_eq)
  from this[of "n div 100" "n mod 100"]
  have v: "((n div 100 div 10 * 10 + n div 100 mod 10) * 10 + n mod 100 div 10) * 10 + n mod 100 mod 10 = n"
    by (simp only: div_mult_mod_eq)
  show ?thesis using getyear_digits[OF d, of s] unfolding v pad2_def append_Cons append_Nil by (simp only:)
qed

lemma parseTime_format:
  assumes "validStamp t"
  shows "parseTime (formatTime t) = Some (stampNanos t)"
proof -
  have lt: "stMonth t < 100" "stDay t < 100" "stHour t < 100" "stMinute t < 100" "stSecond t < 100"
    using assms by (auto simp: validStamp_def daysIn_def split: if_splits)
  have "fraction ''Z'' = (0, ''Z'')" "zone ''Z'' = Some 0" by (simp_all add: fraction_def zone_def)
  then show ?thesis using assms getyear_pad[of "stYear t"]
    by (simp add: parseTime_def formatTime_def getnum_pad2[OF lt(1)] getnum_pad2[OF lt(2)] getnum_pad2[OF lt(3)]
        getnum_pad2[OF lt(4)] getnum_pad2[OF lt(5)] validStamp_def stampNanos_def)
qed

text \<open>The characters of a time are written as they are.\<close>

lemma encBody_plain:
  assumes "\<And>c. c \<in> set s \<Longrightarrow> 0x20 \<le> (of_char c :: nat) \<and> (of_char c :: nat) < 0x80 \<and>
    c \<notin> {quote, backslash, CHR ''<'', CHR ''>'', CHR 0x26}"
  shows "encBody s = s" "validUtf8 s"
proof -
  have r: "runes s = map (\<lambda>c. [c]) s" using assms by (intro runes_ascii) auto
  have "encRune [c] = [c]" if "c \<in> set s" for c
  proof -
    have "c \<noteq> CHR 0x08" "c \<noteq> CHR 0x0C" "c \<noteq> CHR 0x0A" "c \<noteq> CHR 0x0D" "c \<noteq> CHR 0x09"
      using assms[OF that] by auto
    then show ?thesis using assms[OF that] by (auto simp: encRune_def encAscii_def validLen.simps)
  qed
  then show "encBody s = s" unfolding encBody_def r by (induction s) auto
  show "validUtf8 s" unfolding validUtf8_def r using assms by (auto simp: list_all_iff validLen.simps)
qed

lemma formatTime_chars:
  assumes "validStamp t" "c \<in> set (formatTime t)"
  shows "isDigit c \<or> c \<in> {CHR ''-'', CHR ''T'', CHR '':'', CHR ''Z''}"
proof -
  have "isDigit c" if "c \<in> set (pad2 n)" "n < 100" for n c
    using that digit_char[of "n div 10"] digit_char[of "n mod 10"] by (auto simp: pad2_def)
  moreover have "stYear t div 100 < 100" "stYear t mod 100 < 100" "stMonth t < 100" "stDay t < 100" "stHour t < 100"
    "stMinute t < 100" "stSecond t < 100"
    using assms(1) by (auto simp: validStamp_def daysIn_def split: if_splits)
  ultimately show ?thesis using assms(2) unfolding formatTime_def set_append by auto
qed

lemma formatTime_plain:
  assumes "validStamp t"
  shows "encBody (formatTime t) = formatTime t" "validUtf8 (formatTime t)"
proof -
  have "0x20 \<le> (of_char c :: nat) \<and> (of_char c :: nat) < 0x80 \<and> c \<notin> {quote, backslash, CHR ''<'', CHR ''>'', CHR 0x26}"
    if "c \<in> set (formatTime t)" for c
    using formatTime_chars[OF assms that] by (auto simp: isDigit_def quote_def backslash_def)
  then show "encBody (formatTime t) = formatTime t" "validUtf8 (formatTime t)" using encBody_plain by blast+
qed

definition saTokenPairs :: "string \<times> stamp \<Rightarrow> (string \<times> string) list" where
  "saTokenPairs ts = [(''token'', fst ts), (''expirationTimestamp'', formatTime (snd ts))]"

definition marshalTokens :: "(string \<times> string \<times> stamp) list \<Rightarrow> bytes" where
  "marshalTokens = encObject (\<lambda>ts. marshalStringMap (saTokenPairs ts))"

definition validEntry :: "string \<times> string \<times> stamp \<Rightarrow> bool" where
  "validEntry e \<longleftrightarrow> validUtf8 (fst e) \<and> validUtf8 (fst (snd e)) \<and> validStamp (snd (snd e))"

definition saTokenOf :: "string \<times> stamp \<Rightarrow> saToken" where
  "saTokenOf ts = \<lparr>saTokenToken = fst ts, saTokenExpirationTimestamp = stampNanos (snd ts)\<rparr>"

lemma pairs_codec:
  assumes "validUtf8 (fst ts)" "validStamp (snd ts)" "length fs + 1 < maxNestingDepth"
  shows "lexes (\<lambda>ts. marshalStringMap (saTokenPairs ts)) (\<lambda>ts. objectTokens (\<lambda>v. [TLit (strJson v)]) (saTokenPairs ts)) ts"
    and "runsTo fs (\<lambda>ts. objectTokens (\<lambda>v. [TLit (strJson v)]) (saTokenPairs ts)) (\<lambda>ts. objectJson strJson (saTokenPairs ts)) ts"
proof -
  have v: "validUtf8 ''token''" "validUtf8 ''expirationTimestamp''" by code_simp+
  have "list_all (\<lambda>(k, v). validUtf8 k \<and> lexes encString (\<lambda>v. [TLit (strJson v)]) v) (saTokenPairs ts)"
    using assms v formatTime_plain(2)[of "snd ts"] by (simp add: saTokenPairs_def string_codec)
  from lexes_object[OF this]
  show "lexes (\<lambda>ts. marshalStringMap (saTokenPairs ts)) (\<lambda>ts. objectTokens (\<lambda>v. [TLit (strJson v)]) (saTokenPairs ts)) ts"
    by (simp add: lexes_def marshalStringMap_def)
  have "list_all (\<lambda>(k, v). runsTo fs' (\<lambda>v. [TLit (strJson v)]) strJson v) (saTokenPairs ts)" for fs'
    by (simp add: saTokenPairs_def string_codec)
  from jrun_object[OF this] assms(3)
  show "runsTo fs (\<lambda>ts. objectTokens (\<lambda>v. [TLit (strJson v)]) (saTokenPairs ts)) (\<lambda>ts. objectJson strJson (saTokenPairs ts)) ts"
    by (simp add: runsTo_def)
qed

lemma structValue_saToken:
  assumes "validStamp (snd ts)"
  shows "structValue saTokenMember zeroSaToken (objectJson strJson (saTokenPairs ts)) = Inr (saTokenOf ts)"
  using parseTime_format[OF assms]
  by (simp add: objectJson_def saTokenPairs_def saTokenMember_def fieldOf_def strJson_def zeroSaToken_def saTokenOf_def
      formatTime_plain(1)[OF assms])

lemma map_of_rev_distinct: "distinct (map fst xs) \<Longrightarrow> map_of (rev xs) = map_of xs"
proof (induction xs)
  case (Cons x xs)
  obtain k v where x: "x = (k, v)" by (cases x)
  have "k \<notin> dom (map_of xs)" using Cons.prems x by (simp add: dom_map_of_conv_image_fst)
  with Cons x show ?case by (auto simp: map_add_def fun_eq_iff split: option.splits)
qed simp

lemma unmarshal_marshalTokens:
  assumes "list_all validEntry es" "distinct (map fst es)"
  shows "unmarshalTokens (marshalTokens es) = Inr (map_option saTokenOf \<circ> map_of es)"
proof -
  have "list_all (\<lambda>(k, v). validUtf8 k \<and> lexes (\<lambda>ts. marshalStringMap (saTokenPairs ts)) (\<lambda>ts. objectTokens (\<lambda>v. [TLit (strJson v)]) (saTokenPairs ts)) v \<and>
      runsTo [] (\<lambda>ts. objectTokens (\<lambda>v. [TLit (strJson v)]) (saTokenPairs ts)) (\<lambda>ts. objectJson strJson (saTokenPairs ts)) v) es"
    using assms(1) pairs_codec[where fs = "[]"] by (auto simp: list_all_iff validEntry_def maxNestingDepth_def)
  from parseJson_object[OF this]
  have p: "parseJson (marshalTokens es) = Some (objectJson (\<lambda>ts. objectJson strJson (saTokenPairs ts)) es)"
    by (simp add: marshalTokens_def)
  let ?f = "\<lambda>(k, v). rbind (structValue saTokenMember zeroSaToken v) (\<lambda>t. Inr (k, t))"
  have "mapE ?f (map (\<lambda>(k, ts). (k, objectJson strJson (saTokenPairs ts))) es) = Inr (map (\<lambda>(k, ts). (k, saTokenOf ts)) es)"
    using assms(1) by (induction es) (auto simp: structValue_saToken validEntry_def)
  moreover have "map_of (rev (map (\<lambda>(k, ts). (k, saTokenOf ts)) es)) = map_option saTokenOf \<circ> map_of es"
  proof -
    have "map fst (map (\<lambda>(k, ts). (k, saTokenOf ts)) es) = map fst es" by (simp add: case_prod_beta comp_def)
    then have "map_of (rev (map (\<lambda>(k, ts). (k, saTokenOf ts)) es)) = map_of (map (\<lambda>(k, ts). (k, saTokenOf ts)) es)"
      using map_of_rev_distinct[of "map (\<lambda>(k, ts). (k, saTokenOf ts)) es"] assms(2) by metis
    then show ?thesis by (simp add: map_of_map)
  qed
  ultimately show ?thesis by (simp add: unmarshalTokens_def p objectJson_def)
qed

end
