(* ===== verification/Auth.thy ===== *)
theory Auth
  imports Complex_Main TokenJson
begin

text \<open>
  \<open>pkg/auth/auth.go\<close>: which identity is used to reach the vault and how its credential is
  made. The credential constructors of the Azure SDK and the HTTP exchange with the NMI server
  are arguments, and so is the decoder of the service account tokens, which the mount operation
  instantiates with \<open>unmarshalTokens\<close>; \<open>'c\<close> is the type of an SDK credential, \<open>'t\<close> that of an HTTP
  transport. The package variables that \<open>main\<close> sets once are a record. A Go map that the code
  ranges over is an association list with distinct keys in the order of the iteration, and
  \<open>None\<close> is the nil map.
\<close>

section \<open>Data\<close>

datatype identityMode =
    IdentityModeNone
  | IdentityModePodIdentity
  | IdentityModeVMManagedIdentity
  | IdentityModeAzureTokenProxy
  | IdentityModeOther int

definition showInt :: "int \<Rightarrow> string" where
  "showInt i = (if i < 0 then ''-'' @ Itoa (nat (- i)) else Itoa (nat i))"

fun modeString :: "identityMode \<Rightarrow> string" where
  "modeString IdentityModeNone = ''None''"
| "modeString IdentityModePodIdentity = ''PodIdentity''"
| "modeString IdentityModeVMManagedIdentity = ''VMManagedIdentity''"
| "modeString IdentityModeAzureTokenProxy = ''AzureTokenProxy''"
| "modeString (IdentityModeOther m) = ''Unknown('' @ showInt m @ '')''"

record config =
  cfgIdentityMode :: identityMode
  cfgUserAssignedIdentityID :: string
  cfgAADClientSecret :: string
  cfgAADClientID :: string
  cfgWorkloadIdentityClientID :: string
  cfgServiceAccountToken :: string

record podIdentityCredential =
  picPodName :: string
  picPodNamespace :: string
  picResource :: string
  picTenantID :: string
  picNmiPort :: string

record 't workloadIdentityCredentialOptions =
  ActiveDirectoryAuthorityHost :: string
  Transport :: "'t option"
  DisableInstanceDiscovery :: bool

record ('t, 'c) azidentity =
  NewClientAssertionCredential :: "string \<Rightarrow> string \<Rightarrow> string \<Rightarrow> 't workloadIdentityCredentialOptions \<Rightarrow> 'c result"
  NewClientSecretCredential :: "string \<Rightarrow> string \<Rightarrow> string \<Rightarrow> string \<Rightarrow> 'c result"
  NewManagedIdentityCredential :: "string option \<Rightarrow> 'c result"

record 't authGlobals =
  proxyTransport :: "'t option"
  proxyTransportErr :: "go_error option"

datatype 'c tokenCredential =
    PodIdentityCred podIdentityCredential
  | WorkloadIdentityCred string 'c
  | SdkCred 'c

definition podNameHeader :: string where
  "podNameHeader = ''podname''"

definition podNamespaceHeader :: string where
  "podNamespaceHeader = ''podns''"

definition DefaultTokenAudience :: string where
  "DefaultTokenAudience = ''api://AzureADTokenExchange''"

definition IdentityBindingTokenAudience :: string where
  "IdentityBindingTokenAudience = ''api://AKSIdentityBinding''"

definition ErrServiceAccountTokensNotFound :: go_error where
  "ErrServiceAccountTokensNotFound = Errorf ''service account tokens not found'' []"

section \<open>The proxy transport\<close>

definition SetProxyTransport :: "'t option \<Rightarrow> go_error option \<Rightarrow> 't authGlobals \<Rightarrow> 't authGlobals" where
  "SetProxyTransport t err g = g\<lparr>proxyTransport := t, proxyTransportErr := err\<rparr>"

section \<open>Client id and secret from the node publish secret\<close>

fun credentialLoop :: "string \<Rightarrow> string \<Rightarrow> (string \<times> string) list \<Rightarrow> string \<times> string" where
  "credentialLoop clientID clientSecret [] = (clientID, clientSecret)"
| "credentialLoop clientID clientSecret ((k, v) # kvs) =
     (if ToLower k = ''clientid'' then credentialLoop v clientSecret kvs
      else if ToLower k = ''clientsecret'' then credentialLoop clientID v kvs
      else credentialLoop clientID clientSecret kvs)"

definition getCredential :: "(string \<times> string) list option \<Rightarrow> (string \<times> string) result" where
  "getCredential secrets =
     (case secrets of
        None \<Rightarrow> Inl (Errorf ''failed to get credentials, nodePublishSecretRef secret is not set'' [])
      | Some kvs \<Rightarrow>
          (let (clientID, clientSecret) = credentialLoop [] [] kvs in
           if clientID = [] then Inl (Errorf ''could not find clientid in secrets'' [])
           else if clientSecret = [] then Inl (Errorf ''could not find clientsecret in secrets'' [])
           else Inr (clientID, clientSecret)))"

definition NewConfig ::
  "identityMode \<Rightarrow> string \<Rightarrow> string \<Rightarrow> string \<Rightarrow> (string \<times> string) list option \<Rightarrow> config result" where
  "NewConfig mode userAssignedIdentityID workloadIdentityClientID serviceAccountToken secrets =
     (let config = \<lparr>cfgIdentityMode = mode, cfgUserAssignedIdentityID = userAssignedIdentityID,
            cfgAADClientSecret = [], cfgAADClientID = [],
            cfgWorkloadIdentityClientID = workloadIdentityClientID,
            cfgServiceAccountToken = serviceAccountToken\<rparr>;
          useWorkloadIdentity = (workloadIdentityClientID \<noteq> [] \<and> serviceAccountToken \<noteq> [])
      in if mode = IdentityModeNone \<and> \<not> useWorkloadIdentity
         then rbind (getCredential secrets) (\<lambda>(clientID, clientSecret).
                Inr (config\<lparr>cfgAADClientID := clientID, cfgAADClientSecret := clientSecret\<rparr>))
         else Inr config)"

section \<open>Credentials\<close>

definition newWorkloadIdentityCredential ::
  "('t, 'c) azidentity \<Rightarrow> string \<Rightarrow> string \<Rightarrow> string \<Rightarrow> 't workloadIdentityCredentialOptions \<Rightarrow>
   'c tokenCredential result" where
  "newWorkloadIdentityCredential sdk tenantID clientID assertion options =
     rbind (NewClientAssertionCredential sdk tenantID clientID assertion options)
       (\<lambda>cred. Inr (WorkloadIdentityCred assertion cred))"

definition getWorkloadIdentityTokenCredential ::
  "('t, 'c) azidentity \<Rightarrow> string \<Rightarrow> string \<Rightarrow> string \<Rightarrow> string \<Rightarrow> 'c tokenCredential result" where
  "getWorkloadIdentityTokenCredential sdk clientID signedAssertion aadEndpoint tenantID =
     newWorkloadIdentityCredential sdk tenantID clientID signedAssertion
       \<lparr>ActiveDirectoryAuthorityHost = aadEndpoint, Transport = None, DisableInstanceDiscovery = False\<rparr>"

definition errTransportNotInitialized :: go_error where
  "errTransportNotInitialized =
     Errorf ''identity binding proxy transport not initialized (call SetProxyTransport during startup)'' []"

definition getIdentityBindingTokenCredential ::
  "('t, 'c) azidentity \<Rightarrow> 't authGlobals \<Rightarrow> string \<Rightarrow> string \<Rightarrow> string \<Rightarrow> string \<Rightarrow> 'c tokenCredential result" where
  "getIdentityBindingTokenCredential sdk g clientID signedAssertion aadEndpoint tenantID =
     (case proxyTransportErr g of
        Some e \<Rightarrow> Inl (wrapf ''proxy transport not available: %w'' [] e)
      | None \<Rightarrow>
          (case proxyTransport g of
             None \<Rightarrow> Inl errTransportNotInitialized
           | Some t \<Rightarrow>
               newWorkloadIdentityCredential sdk tenantID clientID signedAssertion
                 \<lparr>ActiveDirectoryAuthorityHost = aadEndpoint, Transport = Some t,
                  DisableInstanceDiscovery = True\<rparr>))"

definition getServicePrincipalTokenCredential ::
  "('t, 'c) azidentity \<Rightarrow> string \<Rightarrow> string \<Rightarrow> string \<Rightarrow> string \<Rightarrow> 'c tokenCredential result" where
  "getServicePrincipalTokenCredential sdk clientID secret aadEndpoint tenantID =
     rbind (NewClientSecretCredential sdk tenantID clientID secret aadEndpoint) (\<lambda>cred. Inr (SdkCred cred))"

definition getManagedIdentityTokenCredential ::
  "('t, 'c) azidentity \<Rightarrow> string \<Rightarrow> 'c tokenCredential result" where
  "getManagedIdentityTokenCredential sdk identityClientID =
     rbind (NewManagedIdentityCredential sdk (if identityClientID \<noteq> [] then Some identityClientID else None))
       (\<lambda>cred. Inr (SdkCred cred))"

definition errPodInformation :: go_error where
  "errPodInformation =
     Errorf ''pod information is not available. deploy a CSIDriver object to set podInfoOnMount: true'' []"

definition getPodIdentityTokenCredential ::
  "string \<Rightarrow> string \<Rightarrow> string \<Rightarrow> string \<Rightarrow> string \<Rightarrow> 'c tokenCredential result" where
  "getPodIdentityTokenCredential podName podNamespace resource tenantID nmiPort =
     (if podName = [] \<or> podNamespace = [] then Inl errPodInformation
      else Inr (PodIdentityCred \<lparr>picPodName = podName, picPodNamespace = podNamespace,
             picResource = resource, picTenantID = tenantID, picNmiPort = nmiPort\<rparr>))"

definition errBindingFields :: go_error where
  "errBindingFields =
     Errorf ''workload identity client ID and service account token are required for identity binding'' []"

definition errNoIdentityMode :: go_error where
  "errNoIdentityMode = Errorf ''no identity mode is enabled'' []"

definition GetCredential ::
  "('t, 'c) azidentity \<Rightarrow> 't authGlobals \<Rightarrow> config \<Rightarrow>
   string \<Rightarrow> string \<Rightarrow> string \<Rightarrow> string \<Rightarrow> string \<Rightarrow> string \<Rightarrow> 'c tokenCredential result" where
  "GetCredential sdk g c podName podNamespace resource aadEndpoint tenantID nmiPort =
     (case cfgIdentityMode c of
        IdentityModePodIdentity \<Rightarrow> getPodIdentityTokenCredential podName podNamespace resource tenantID nmiPort
      | IdentityModeVMManagedIdentity \<Rightarrow> getManagedIdentityTokenCredential sdk (cfgUserAssignedIdentityID c)
      | IdentityModeAzureTokenProxy \<Rightarrow>
          if cfgWorkloadIdentityClientID c = [] \<or> cfgServiceAccountToken c = [] then Inl errBindingFields
          else getIdentityBindingTokenCredential sdk g (cfgWorkloadIdentityClientID c)
                 (cfgServiceAccountToken c) aadEndpoint tenantID
      | IdentityModeNone \<Rightarrow>
          if cfgWorkloadIdentityClientID c \<noteq> [] \<and> cfgServiceAccountToken c \<noteq> []
          then getWorkloadIdentityTokenCredential sdk (cfgWorkloadIdentityClientID c)
                 (cfgServiceAccountToken c) aadEndpoint tenantID
          else if cfgAADClientSecret c \<noteq> [] \<and> cfgAADClientID c \<noteq> []
          then getServicePrincipalTokenCredential sdk (cfgAADClientID c) (cfgAADClientSecret c) aadEndpoint tenantID
          else Inl errNoIdentityMode
      | IdentityModeOther m \<Rightarrow> Inl (Errorf ''unknown identity mode: %s'' [modeString (IdentityModeOther m)]))"

section \<open>Service account tokens\<close>

definition parseTokenForAudience ::
  "(string \<Rightarrow> (string \<rightharpoonup> saToken) result) \<Rightarrow> string \<Rightarrow> string \<Rightarrow> string result" where
  "parseTokenForAudience unmarshal saTokens audience =
     (if saTokens = [] then Inl ErrServiceAccountTokensNotFound
      else rbind (wrapErr (wrapf ''failed to unmarshal service account tokens, error: %w'' []) (unmarshal saTokens))
        (\<lambda>tokens.
          case tokens audience of
            None \<Rightarrow> Inl (Errorf ''token for audience %s not found'' [audience])
          | Some entry \<Rightarrow>
              if saTokenToken entry = [] then Inl (Errorf ''token for audience %s not found'' [audience])
              else Inr (saTokenToken entry)))"

definition ParseServiceAccountToken :: "(string \<Rightarrow> (string \<rightharpoonup> saToken) result) \<Rightarrow> string \<Rightarrow> string result" where
  "ParseServiceAccountToken unmarshal saTokens = parseTokenForAudience unmarshal saTokens DefaultTokenAudience"

definition ParseIdentityBindingToken :: "(string \<Rightarrow> (string \<rightharpoonup> saToken) result) \<Rightarrow> string \<Rightarrow> string result" where
  "ParseIdentityBindingToken unmarshal saTokens = parseTokenForAudience unmarshal saTokens IdentityBindingTokenAudience"

definition getScope :: "string \<Rightarrow> string" where
  "getScope resource = (if suffix ''/.default'' resource then resource else resource @ ''/.default'')"

section \<open>Tokens from the NMI server\<close>

record accessToken =
  atToken :: string
  atExpiresOn :: int

record httpRequest =
  httpURL :: string
  httpHeader :: "(string \<times> string) list"

record httpResponse =
  httpStatusCode :: int
  httpBody :: "bytes result"

text \<open>
  The exchange: making the request (which parses the URL) and sending it. The decoded response
  is a pointer, which the JSON text \<open>null\<close> sets to nil. \<open>ParseFloat\<close> and
  \<open>NewUnixTimeFromSeconds\<close> turn the expiry into a time in nanoseconds.
\<close>

record nmiLib =
  NewRequest :: "string \<Rightarrow> unit result"
  DoRequest :: "httpRequest \<Rightarrow> httpResponse result"
  ParseFloat :: "string \<Rightarrow> rat result"
  NewUnixTimeFromSeconds :: "rat \<Rightarrow> int"

definition Expires :: "nmiLib \<Rightarrow> token \<Rightarrow> int" where
  "Expires lib t =
     NewUnixTimeFromSeconds lib (case ParseFloat lib (ExpiresOn t) of Inl _ \<Rightarrow> - 3600 | Inr s \<Rightarrow> s)"

definition podIdentityGetToken :: "nmiLib \<Rightarrow> podIdentityCredential \<Rightarrow> accessToken result" where
  "podIdentityGetToken lib c =
     (let endpoint = ''http://localhost:'' @ picNmiPort c @ ''/host/token/?resource='' @ picResource c in
      rbind (NewRequest lib endpoint) (\<lambda>_.
      let req = \<lparr>httpURL = endpoint,
            httpHeader = [(podNamespaceHeader, picPodNamespace c), (podNameHeader, picPodName c)]\<rparr> in
      rbind (DoRequest lib req) (\<lambda>resp.
      rbind (httpBody resp) (\<lambda>bodyBytes.
      if httpStatusCode resp \<noteq> 200
      then Inl (Errorf ''nmi response failed with status code: %d, response body: %+v''
                  [showInt (httpStatusCode resp), bodyBytes])
      else rbind (unmarshalPodIdentityResponse bodyBytes) (\<lambda>r.
        case r of
          None \<Rightarrow> Inl (Panic ''nil pointer dereference'')
        | Some podIdentityResponse \<Rightarrow>
            (let tok = pirToken podIdentityResponse; clientID = pirClientID podIdentityResponse in
             if AccessToken tok = [] \<or> clientID = []
             then Inl (Errorf ''nmi did not return expected values in response: token and clientid'' [])
             else Inr \<lparr>atToken = AccessToken tok, atExpiresOn = Expires lib tok\<rparr>))))))"

section \<open>Facts\<close>

definition lowered :: "(string \<times> string) list \<Rightarrow> (string \<times> string) list" where
  "lowered kvs = map (\<lambda>(k, v). (ToLower k, v)) kvs"

definition lookupOr :: "string \<Rightarrow> (string \<times> string) list \<Rightarrow> string \<Rightarrow> string" where
  "lookupOr d kvs k = (case map_of kvs k of None \<Rightarrow> d | Some v \<Rightarrow> v)"

text \<open>The loop keeps the last value it meets: a lookup in the reversed, lower-cased list.\<close>

lemma credentialLoop_lookup:
  "credentialLoop a b kvs =
     (lookupOr a (rev (lowered kvs)) ''clientid'', lookupOr b (rev (lowered kvs)) ''clientsecret'')"
proof (induction a b kvs rule: credentialLoop.induct)
  case (2 a b k v kvs)
  have ne: "''clientid'' \<noteq> ''clientsecret''" by simp
  show ?case
  proof (cases "ToLower k = ''clientid''")
    case True
    with 2(1) ne show ?thesis by (auto simp: lookupOr_def lowered_def map_add_def split: option.splits)
  next
    case False
    with 2(2,3) show ?thesis by (auto simp: lookupOr_def lowered_def map_add_def split: option.splits)
  qed
qed (simp add: lookupOr_def lowered_def)

lemma map_of_rev_perm:
  assumes "distinct (map fst xs)" "mset xs = mset ys"
  shows "map_of (rev xs) = map_of (rev ys)"
proof
  fix k
  have s: "set xs = set ys" using assms(2) by (rule mset_eq_setD)
  have m: "mset (map fst xs) = mset (map fst ys)" using assms(2) by (metis mset_map)
  have d: "distinct (map fst (rev xs))" "distinct (map fst (rev ys))"
    using assms(1) mset_eq_imp_distinct_iff[OF m] by (simp_all add: rev_map[symmetric])
  show "map_of (rev xs) k = map_of (rev ys) k"
    using map_of_eq_Some_iff[OF d(1)] map_of_eq_Some_iff[OF d(2)] s
    by (cases "map_of (rev xs) k"; cases "map_of (rev ys) k") (auto, force+)
qed

lemma getCredential_eq_Inr:
  "getCredential secrets = Inr (cid, sec) \<Longrightarrow> cid \<noteq> [] \<and> sec \<noteq> []"
  by (auto simp: getCredential_def split: option.splits prod.splits if_splits)

lemma parseTokenForAudience_eq_Inr:
  "parseTokenForAudience unmarshal saTokens aud = Inr tok \<longleftrightarrow>
     saTokens \<noteq> [] \<and> tok \<noteq> [] \<and>
     (\<exists>m entry. unmarshal saTokens = Inr m \<and> m aud = Some entry \<and> saTokenToken entry = tok)"
  by (auto simp: parseTokenForAudience_def result_simps split: option.splits if_splits)

section \<open>Properties\<close>

text \<open>
  The client id and secret read from the node publish secret do not depend on the
  order in which Go ranges over the map, as long as no two keys differ only in case.
\<close>

lemma getCredential_order:
  assumes "distinct (map fst (lowered kvs))" "mset kvs = mset kvs'"
  shows "getCredential (Some kvs) = getCredential (Some kvs')"
proof -
  have "mset (lowered kvs) = mset (lowered kvs')" using assms(2) by (simp add: lowered_def)
  from map_of_rev_perm[OF assms(1) this] show ?thesis
    by (simp add: getCredential_def credentialLoop_lookup lookupOr_def)
qed

lemma getCredential_order_witness:
  "getCredential (Some [(''clientID'', ''a''), (''ClientSecret'', ''b'')]) =
   getCredential (Some [(''ClientSecret'', ''b''), (''clientID'', ''a'')])"
  by (rule getCredential_order) (simp add: lowered_def, code_simp, simp)

text \<open>With two keys that differ only in case the result follows the iteration order.\<close>

lemma getCredential_ambiguous:
  "getCredential (Some [(''clientid'', ''a''), (''CLIENTID'', ''b''), (''clientsecret'', ''s'')]) = Inr (''b'', ''s'')"
  "getCredential (Some [(''CLIENTID'', ''b''), (''clientid'', ''a''), (''clientsecret'', ''s'')]) = Inr (''a'', ''s'')"
  by code_simp+

text \<open>
  A configuration made without an explicit identity mode always leads to a
  credential attempt: workload identity when a client id and a token are present, and otherwise
  a service principal with the non-empty client id and secret of the node publish secret. The
  error that no identity mode is enabled cannot occur.
\<close>

lemma NewConfig_fallback:
  assumes "NewConfig IdentityModeNone uaid wid tok secrets = Inr c"
  shows "(if wid \<noteq> [] \<and> tok \<noteq> []
          then GetCredential sdk g c pod ns res aad tenant port =
               getWorkloadIdentityTokenCredential sdk wid tok aad tenant
          else \<exists>cid sec. getCredential secrets = Inr (cid, sec) \<and> cid \<noteq> [] \<and> sec \<noteq> [] \<and>
               GetCredential sdk g c pod ns res aad tenant port =
               getServicePrincipalTokenCredential sdk cid sec aad tenant)"
proof (cases "wid \<noteq> [] \<and> tok \<noteq> []")
  case True
  with assms have "c = \<lparr>cfgIdentityMode = IdentityModeNone, cfgUserAssignedIdentityID = uaid,
      cfgAADClientSecret = [], cfgAADClientID = [], cfgWorkloadIdentityClientID = wid, cfgServiceAccountToken = tok\<rparr>"
    by (simp add: NewConfig_def)
  with True show ?thesis by (simp add: GetCredential_def)
next
  case False
  with assms obtain cid sec where cr: "getCredential secrets = Inr (cid, sec)"
    and c: "c = \<lparr>cfgIdentityMode = IdentityModeNone, cfgUserAssignedIdentityID = uaid,
      cfgAADClientSecret = sec, cfgAADClientID = cid, cfgWorkloadIdentityClientID = wid, cfgServiceAccountToken = tok\<rparr>"
    by (auto simp: NewConfig_def result_simps)
  with False getCredential_eq_Inr[OF cr] show ?thesis by (auto simp: GetCredential_def)
qed

text \<open>
  Property C22. In identity binding mode a credential is only ever made with the proxy transport
  set at start-up, with instance discovery off and with the service account token as its
  assertion; a failed or missing transport is an error, never a fallback to a direct connection.
\<close>

theorem identityBinding_uses_proxy:
  assumes "cfgIdentityMode c = IdentityModeAzureTokenProxy"
  shows "GetCredential sdk g c pod ns res aad tenant port = Inr cred \<longleftrightarrow>
    cfgWorkloadIdentityClientID c \<noteq> [] \<and> cfgServiceAccountToken c \<noteq> [] \<and>
    (\<exists>t sc. proxyTransportErr g = None \<and> proxyTransport g = Some t \<and>
      NewClientAssertionCredential sdk tenant (cfgWorkloadIdentityClientID c) (cfgServiceAccountToken c)
        \<lparr>ActiveDirectoryAuthorityHost = aad, Transport = Some t, DisableInstanceDiscovery = True\<rparr> = Inr sc \<and>
      cred = WorkloadIdentityCred (cfgServiceAccountToken c) sc)"
  using assms by (auto simp: GetCredential_def getIdentityBindingTokenCredential_def
      newWorkloadIdentityCredential_def result_simps split: option.splits if_splits)

text \<open>
  A token is obtained from the NMI server exactly when the request that names the
  pod and its namespace in the headers and the resource in the URL is answered with status 200
  and a body that decodes to a non-empty token and client id.
\<close>

lemma podIdentityGetToken_iff:
  "podIdentityGetToken lib c = Inr tok \<longleftrightarrow>
     (let url = ''http://localhost:'' @ picNmiPort c @ ''/host/token/?resource='' @ picResource c in
      NewRequest lib url = Inr () \<and>
      (\<exists>resp body pir.
        DoRequest lib \<lparr>httpURL = url,
           httpHeader = [(''podns'', picPodNamespace c), (''podname'', picPodName c)]\<rparr> = Inr resp \<and>
        httpStatusCode resp = 200 \<and> httpBody resp = Inr body \<and>
        unmarshalPodIdentityResponse body = Inr (Some pir) \<and>
        AccessToken (pirToken pir) \<noteq> [] \<and> pirClientID pir \<noteq> [] \<and>
        tok = \<lparr>atToken = AccessToken (pirToken pir), atExpiresOn = Expires lib (pirToken pir)\<rparr>))"
  by (auto simp: podIdentityGetToken_def result_simps Let_def podNamespaceHeader_def podNameHeader_def
      split: if_splits option.splits)

text \<open>A body that decodes to a nil pointer, the JSON text \<open>null\<close>, makes the code panic.\<close>

lemma podIdentityGetToken_null:
  assumes "\<And>u. NewRequest lib u = Inr ()"
    and "\<And>r. DoRequest lib r = Inr \<lparr>httpStatusCode = 200, httpBody = Inr ''null''\<rparr>"
  shows "podIdentityGetToken lib c = Inl (Panic ''nil pointer dereference'')"
  using assms by (simp add: podIdentityGetToken_def null_response)

text \<open>
  Property C13. The tokens that the kubelet puts into a mount request get through: from the JSON text
  of any tokens for distinct audiences exactly the token of the requested audience is read, and an
  audience without a token, or with an empty one, is an error.
\<close>

theorem serviceAccountTokens_roundtrip:
  assumes "list_all validEntry es" "distinct (map fst es)"
  shows "parseTokenForAudience unmarshalTokens (marshalTokens es) audience =
    (case map_of es audience of
       Some (tok, expiry) \<Rightarrow>
         if tok = [] then Inl (Errorf ''token for audience %s not found'' [audience]) else Inr tok
     | None \<Rightarrow> Inl (Errorf ''token for audience %s not found'' [audience]))"
proof -
  have "marshalTokens es \<noteq> []" by (simp add: marshalTokens_def encObject_def)
  then show ?thesis
    by (simp add: parseTokenForAudience_def unmarshal_marshalTokens[OF assms] saTokenOf_def split: option.splits)
qed

text \<open>
  The scope requested for a resource is the resource with exactly one default
  suffix, however often the function is applied.
\<close>

lemma getScope_default:
  "suffix ''/.default'' (getScope res) \<and> getScope (getScope res) = getScope res \<and>
   (getScope res = res \<or> getScope res = res @ ''/.default'')"
  by (auto simp: getScope_def suffix_def)

section \<open>Witnesses\<close>

text \<open>An SDK whose constructors accept everything and return what they were given.\<close>

definition toySdk :: "(string, string list) azidentity" where
  "toySdk = \<lparr>
     NewClientAssertionCredential = (\<lambda>tenant cid assertion opts. Inr [tenant, cid, assertion]),
     NewClientSecretCredential = (\<lambda>tenant cid secret aad. Inr [tenant, cid, secret, aad]),
     NewManagedIdentityCredential = (\<lambda>cid. Inr [])\<rparr>"

definition toyGlobals :: "string authGlobals" where
  "toyGlobals = SetProxyTransport (Some ''proxy'') None \<lparr>proxyTransport = None, proxyTransportErr = None\<rparr>"

lemma NewConfig_fallback_witness:
  "\<exists>c. NewConfig IdentityModeNone [] [] [] (Some [(''clientid'', ''a''), (''clientsecret'', ''b'')]) = Inr c \<and>
     GetCredential toySdk toyGlobals c ''p'' ''n'' ''r'' ''aad'' ''t'' ''2579'' =
     getServicePrincipalTokenCredential toySdk ''a'' ''b'' ''aad'' ''t''"
proof -
  have cr: "getCredential (Some [(''clientid'', ''a''), (''clientsecret'', ''b'')]) = Inr (''a'', ''b'')"
    by code_simp
  then obtain c where "NewConfig IdentityModeNone [] [] [] (Some [(''clientid'', ''a''), (''clientsecret'', ''b'')]) = Inr c"
    by (simp add: NewConfig_def)
  from this NewConfig_fallback[OF this, of toySdk toyGlobals "''p''" "''n''" "''r''" "''aad''" "''t''" "''2579''"] cr
  show ?thesis by auto
qed

theorem identityBinding_uses_proxy_witness:
  "GetCredential toySdk toyGlobals
     \<lparr>cfgIdentityMode = IdentityModeAzureTokenProxy, cfgUserAssignedIdentityID = [], cfgAADClientSecret = [],
      cfgAADClientID = [], cfgWorkloadIdentityClientID = ''w'', cfgServiceAccountToken = ''s''\<rparr>
     ''p'' ''n'' ''r'' ''aad'' ''t'' ''2579'' = Inr (WorkloadIdentityCred ''s'' [''t'', ''w'', ''s''])"
  by (subst identityBinding_uses_proxy) (simp_all add: toySdk_def toyGlobals_def SetProxyTransport_def)

definition toyStamp :: stamp where
  "toyStamp = \<lparr>stYear = 2024, stMonth = 2, stDay = 29, stHour = 1, stMinute = 2, stSecond = 3\<rparr>"

theorem serviceAccountTokens_roundtrip_witness:
  "parseTokenForAudience unmarshalTokens (marshalTokens [(''api://AKSIdentityBinding'', ''tok'', toyStamp)])
     ''api://AKSIdentityBinding'' = Inr ''tok''"
proof -
  have "validUtf8 ''api://AKSIdentityBinding''" "validUtf8 ''tok''" by code_simp+
  moreover have "validStamp toyStamp" by (simp add: validStamp_def toyStamp_def daysIn_def isLeap_def)
  ultimately have "list_all validEntry [(''api://AKSIdentityBinding'', ''tok'', toyStamp)]" by (simp add: validEntry_def)
  from serviceAccountTokens_roundtrip[OF this, of "''api://AKSIdentityBinding''"] show ?thesis by simp
qed

end
