(* ===== verification/Provider.thy ===== *)
theory Provider
  imports Fetch Auth
begin

text \<open>
  The mount operation of \<open>provider.go\<close>: reading the parameters of the SecretProviderClass,
  choosing the identity, building the credential and the vault URL, parsing and validating the
  requested objects, and fetching them. What comes from outside the repository is the record
  \<open>deps\<close>. The loops that turn objects into files are written over the two operations they
  call, and the locales \<open>object_source\<close> and \<open>framed_source\<close> are the contracts of these.
\<close>

section \<open>Configuration\<close>

record ('v, 't, 'c, 'h, 'k) deps =
  depSdk :: "('v, 'c tokenCredential, 'h) kvSdk"
  depIdentity :: "('t, 'c) azidentity"
  depCrypto :: "'k cryptoLib"
  depEnvironmentFromName :: "(string \<rightharpoonup> string) \<Rightarrow> string \<Rightarrow> azureEnvironment result"
  depUnmarshalArray :: "string \<Rightarrow> string list result"
  depUnmarshalObject :: "string \<Rightarrow> keyVaultObject result"
  depSort :: "keyVaultObjectVersionList \<Rightarrow> keyVaultObjectVersionList"

record mountConfig =
  mcKeyvaultName :: string
  mcAzureCloudEnvironment :: azureEnvironment
  mcAuthConfig :: config
  mcTenantID :: string
  mcPodName :: string
  mcPodNamespace :: string

record authConfigInput =
  aciIdentityMode :: identityMode
  aciUserAssignedIdentityID :: string
  aciWorkloadIdentityClientID :: string
  aciSaTokens :: string
  aciSecrets :: "(string \<times> string) list option"

definition NewProvider :: "bool \<Rightarrow> bool \<Rightarrow> azureEnvironment \<Rightarrow> provider" where
  "NewProvider pemChain separateFiles env =
     \<lparr>constructPEMChain = pemChain, writeCertAndKeyInSeparateFiles = separateFiles,
      defaultCloudEnvironment = env\<rparr>"

text \<open>\<open>azure.EnvironmentFromName\<close> reads the process environment for the name AZURESTACKCLOUD.\<close>

definition parseAzureEnvironment ::
  "((string \<rightharpoonup> string) \<Rightarrow> string \<Rightarrow> azureEnvironment result) \<Rightarrow> provider \<Rightarrow> (string \<rightharpoonup> string) \<Rightarrow> string \<Rightarrow>
   azureEnvironment result" where
  "parseAzureEnvironment fromName p env cloudName =
     (if cloudName = [] then Inr (defaultCloudEnvironment p) else fromName env cloudName)"

definition initializeKvClient ::
  "('v, 't, 'c, 'h, 'k) deps \<Rightarrow> 't authGlobals \<Rightarrow> mountConfig \<Rightarrow> string \<Rightarrow> 'h kvClient result" where
  "initializeKvClient d g mc vaultURI =
     (let kvEndpoint = TrimSuffix (KeyVaultEndpoint (mcAzureCloudEnvironment mc)) ''/'' in
      rbind (GetCredential (depIdentity d) g (mcAuthConfig mc) (mcPodName mc) (mcPodNamespace mc) kvEndpoint
               (ActiveDirectoryEndpoint (mcAzureCloudEnvironment mc)) (mcTenantID mc) PodIdentityNMIPort)
        (\<lambda>cred. NewClient (depSdk d) cred vaultURI))"

definition vaultNameChar :: "char \<Rightarrow> bool" where
  "vaultNameChar c \<longleftrightarrow>
     (let n = of_char c :: nat in
      n = 45 \<or> 48 \<le> n \<and> n \<le> 57 \<or> 65 \<le> n \<and> n \<le> 90 \<or> 97 \<le> n \<and> n \<le> 122)"

definition getVaultURL :: "mountConfig \<Rightarrow> string result" where
  "getVaultURL mc =
     (let name = mcKeyvaultName mc in
      if length name < 3 \<or> 24 < length name
      then Inl (Errorf ''Invalid vault name: %q, must be between 3 and 24 chars'' [name])
      else if \<not> (name \<noteq> [] \<and> list_all vaultNameChar name)
      then Inl (Errorf ''Invalid vault name: %q, must match [-a-zA-Z0-9]{3,24}'' [name])
      else Inr (''https://'' @ name @ ''.'' @ KeyVaultDNSSuffix (mcAzureCloudEnvironment mc) @ ''/''))"

definition buildAuthConfig ::
  "(string \<Rightarrow> (string \<rightharpoonup> saToken) result) \<Rightarrow> authConfigInput \<Rightarrow> config result" where
  "buildAuthConfig unmarshal input =
     rbind (if aciIdentityMode input = IdentityModeAzureTokenProxy then
              rbind (guardE (aciWorkloadIdentityClientID input \<noteq> [])
                       (Errorf ''clientID is required for identity binding'' [])) (\<lambda>_.
              guardE (aciSaTokens input \<noteq> [])
                (Errorf ''service account tokens are required for identity binding'' []))
            else Inr ()) (\<lambda>_.
     rbind (if aciIdentityMode input = IdentityModeAzureTokenProxy then
              wrapErr (wrapf ''failed to parse service account token for identity binding, error: %w'' [])
                (ParseIdentityBindingToken unmarshal (aciSaTokens input))
            else if aciWorkloadIdentityClientID input \<noteq> [] then
              wrapErr (wrapf ''failed to parse workload identity tokens, error: %w'' [])
                (ParseServiceAccountToken unmarshal (aciSaTokens input))
            else Inr []) (\<lambda>serviceAccountToken.
     NewConfig (aciIdentityMode input) (aciUserAssignedIdentityID input)
       (aciWorkloadIdentityClientID input) serviceAccountToken (aciSecrets input)))"

definition errModes :: go_error where
  "errModes = Errorf ''only one identity mode can be enabled at a time: usePodIdentity, useVMManagedIdentity, or useAzureTokenProxy'' []"

text \<open>The mode and the number of modes enabled, one flag after the other.\<close>

definition selectIdentityMode :: "bool \<Rightarrow> bool \<Rightarrow> bool \<Rightarrow> identityMode result" where
  "selectIdentityMode usePodIdentity useVMManagedIdentity useAzureTokenProxy =
     (let st0 = (IdentityModeNone, 0 :: nat);
          st1 = (if usePodIdentity then (IdentityModePodIdentity, snd st0 + 1) else st0);
          st2 = (if useVMManagedIdentity then (IdentityModeVMManagedIdentity, snd st1 + 1) else st1);
          st3 = (if useAzureTokenProxy then (IdentityModeAzureTokenProxy, snd st2 + 1) else st2)
      in if 1 < snd st3 then Inl errModes else Inr (fst st3))"

definition EnvironmentFilepathName :: string where
  "EnvironmentFilepathName = ''AZURE_ENVIRONMENT_FILEPATH''"

text \<open>\<open>os.Setenv\<close>: the name is fixed and valid; a value with a NUL byte is refused.\<close>

definition Setenv :: "string \<Rightarrow> string \<Rightarrow> ('v world, unit) io" where
  "Setenv key val w =
     (if CHR 0x00 \<in> set val then (Inl (External ''setenv: invalid argument''), w)
      else (Inr (), w\<lparr>environ := (environ w)(key \<mapsto> val)\<rparr>))"

definition setAzureEnvironmentFilePath :: "string \<Rightarrow> ('v world, unit) io" where
  "setAzureEnvironmentFilePath envFileName =
     (if envFileName = [] then sreturn () else Setenv EnvironmentFilepathName envFileName)"

section \<open>Objects\<close>

definition parseObject :: "(string \<Rightarrow> keyVaultObject result) \<Rightarrow> nat \<times> string \<Rightarrow> keyVaultObject result" where
  "parseObject unmarshal io =
     (let (i, object) = io in
      rbind (wrapErr (wrapf ''unmarshal failed for keyVaultObjects at index %d, error: %w'' [Itoa i])
               (unmarshal object)) (\<lambda>kv0.
      let kv = the (formatKeyVaultObject (Some kv0)) in
      rbind (wrapErr (wrapKv kv) (validate kv)) (\<lambda>_. Inr kv)))"

definition parseObjects ::
  "('v, 't, 'c, 'h, 'k) deps \<Rightarrow> params \<Rightarrow> keyVaultObject list result" where
  "parseObjects d attrib =
     (let objectsStrings = GetObjects attrib in
      rbind (guardE (objectsStrings \<noteq> []) (Errorf ''objects is not set'' [])) (\<lambda>_.
      rbind (wrapErr (wrapf ''failed to yaml unmarshal objects, error: %w'' [])
               (GetObjectsArray (depUnmarshalArray d) objectsStrings)) (\<lambda>objects.
      mapE (parseObject (depUnmarshalObject d)) (enumerate 0 objects))))"

section \<open>Files\<close>

definition fileOf :: "int32 \<Rightarrow> keyVaultObject \<Rightarrow> kvContent \<Rightarrow> secretFile result" where
  "fileOf defaultFilePermission kv r =
     rbind (getContentBytes (content r) (ObjectType kv) (ObjectEncoding kv)) (\<lambda>objectContent.
       Inr \<lparr>sfContent = objectContent,
            sfPath = GetFileName kv @ fileNameSuffix r,
            sfFileMode = fst (GetFilePermission kv defaultFilePermission),
            sfUID = GetObjectUID kv,
            sfVersion = version r\<rparr>)"

definition fetchResolved ::
  "(keyVaultObject \<Rightarrow> ('w, kvContent list) io) \<Rightarrow> int32 \<Rightarrow> keyVaultObject \<Rightarrow> ('w, secretFile list) io" where
  "fetchResolved fetch perm kv = sbind (fetch kv) (\<lambda>rs. slift (mapE (fileOf perm kv) rs))"

definition fetchObject ::
  "(keyVaultObject \<Rightarrow> ('w, keyVaultObject list) io) \<Rightarrow> (keyVaultObject \<Rightarrow> ('w, kvContent list) io) \<Rightarrow>
   int32 \<Rightarrow> keyVaultObject \<Rightarrow> ('w, secretFile list) io" where
  "fetchObject resolve fetch perm kv =
     sbind (resolve kv) (\<lambda>ks. sbind (mapS (fetchResolved fetch perm) ks) (\<lambda>fss. sreturn (concat fss)))"

definition fetchFiles ::
  "(keyVaultObject \<Rightarrow> ('w, keyVaultObject list) io) \<Rightarrow> (keyVaultObject \<Rightarrow> ('w, kvContent list) io) \<Rightarrow>
   int32 \<Rightarrow> keyVaultObject list \<Rightarrow> ('w, secretFile list) io" where
  "fetchFiles resolve fetch perm kvs =
     sbind (mapS (fetchObject resolve fetch perm) kvs) (\<lambda>fss. sreturn (concat fss))"

section \<open>The mount operation\<close>

text \<open>The checks and flags that come before anything has an effect.\<close>

definition readParameters :: "params \<Rightarrow> identityMode result" where
  "readParameters attrib =
     rbind (guardE (GetPodName attrib \<noteq> []) (Errorf ''pod name is not provided'' [])) (\<lambda>_.
     rbind (guardE (GetPodNamespace attrib \<noteq> []) (Errorf ''pod namespace is not provided'' [])) (\<lambda>_.
     rbind (wrapErr (wrapf ''failed to parse usePodIdentity flag, error: %w'' []) (GetUsePodIdentity attrib)) (\<lambda>pod.
     rbind (wrapErr (wrapf ''failed to parse useVMManagedIdentity flag, error: %w'' []) (GetUseVMManagedIdentity attrib)) (\<lambda>vm.
     rbind (wrapErr (wrapf ''failed to parse useAzureTokenProxy flag, error: %w'' []) (GetUseAzureTokenProxy attrib)) (\<lambda>proxy.
     rbind (selectIdentityMode pod vm proxy) (\<lambda>identityMode.
     rbind (guardE (GetKeyVaultName attrib \<noteq> []) (Errorf ''keyvaultName is not provided'' [])) (\<lambda>_.
     rbind (guardE (GetTenantID attrib \<noteq> []) (Errorf ''tenantId is not provided'' [])) (\<lambda>_.
     Inr identityMode))))))))"

definition authInput :: "params \<Rightarrow> (string \<times> string) list option \<Rightarrow> identityMode \<Rightarrow> authConfigInput" where
  "authInput attrib secrets mode =
     \<lparr>aciIdentityMode = mode, aciUserAssignedIdentityID = GetUserAssignedIdentityID attrib,
      aciWorkloadIdentityClientID = GetClientID attrib, aciSaTokens = GetServiceAccountTokens attrib,
      aciSecrets = secrets\<rparr>"

definition buildMount ::
  "('v, 't, 'c, 'h, 'k) deps \<Rightarrow> provider \<Rightarrow> params \<Rightarrow> (string \<times> string) list option \<Rightarrow> identityMode \<Rightarrow>
   ('v world, mountConfig) io" where
  "buildMount d p attrib secrets mode =
     sbind (\<lambda>w. case setAzureEnvironmentFilePath (GetCloudEnvFileName attrib) w of
              (r, w') \<Rightarrow> (wrapErr (wrapf ''failed to set AZURE_ENVIRONMENT_FILEPATH env to %s, error %w''
                                   [GetCloudEnvFileName attrib]) r, w')) (\<lambda>_.
     sbind (\<lambda>w. (wrapErr (wrapf ''cloudName %s is not valid, error: %w'' [GetCloudName attrib])
                  (parseAzureEnvironment (depEnvironmentFromName d) p (environ w) (GetCloudName attrib)), w)) (\<lambda>env.
     sbind (slift (wrapErr (wrapf ''failed to build auth config for mode %s: %w'' [modeString mode])
                    (buildAuthConfig unmarshalTokens (authInput attrib secrets mode)))) (\<lambda>authConfig.
     sreturn \<lparr>mcKeyvaultName = GetKeyVaultName attrib, mcAzureCloudEnvironment = env,
              mcAuthConfig = authConfig, mcTenantID = GetTenantID attrib,
              mcPodName = GetPodName attrib, mcPodNamespace = GetPodNamespace attrib\<rparr>)))"

definition openVault ::
  "('v, 't, 'c, 'h, 'k) deps \<Rightarrow> 't authGlobals \<Rightarrow> mountConfig \<Rightarrow> 'h kvClient result" where
  "openVault d g mc =
     rbind (wrapErr (wrapf ''failed to get vault'' []) (getVaultURL mc)) (\<lambda>vaultURL.
     wrapErr (wrapf ''failed to get keyvault client'' []) (initializeKvClient d g mc vaultURL))"

definition GetSecretsStoreObjectContent ::
  "('v, 't, 'c, 'h, 'k) deps \<Rightarrow> 't authGlobals \<Rightarrow> provider \<Rightarrow>
   params \<Rightarrow> (string \<times> string) list option \<Rightarrow> int32 \<Rightarrow> ('v world, secretFile list) io" where
  "GetSecretsStoreObjectContent d g p attrib secrets defaultFilePermission =
     sbind (slift (readParameters attrib)) (\<lambda>identityMode.
     sbind (buildMount d p attrib secrets identityMode) (\<lambda>mc.
     sbind (slift (parseObjects d attrib)) (\<lambda>keyVaultObjects.
     if keyVaultObjects = [] then sreturn []
     else
       sbind (slift (openVault d g mc)) (\<lambda>kvClient.
       fetchFiles (resolveObjectVersions (depSdk d) (depSort d) kvClient)
         (getKeyVaultObjectContent (depSdk d) (depCrypto d) p kvClient)
         defaultFilePermission keyVaultObjects))))"

section \<open>The contracts of the two operations the loops call\<close>

text \<open>Every file comes from one result of fetching one resolved object.\<close>

definition fileFrom ::
  "(keyVaultObject \<Rightarrow> ('w, keyVaultObject list) io) \<Rightarrow> (keyVaultObject \<Rightarrow> ('w, kvContent list) io) \<Rightarrow>
   int32 \<Rightarrow> keyVaultObject \<Rightarrow> keyVaultObject \<Rightarrow> kvContent \<Rightarrow> secretFile \<Rightarrow> bool" where
  "fileFrom resolve fetch perm kv k r f \<longleftrightarrow>
     (\<exists>w1 ks w2 w3 rs w4. resolve kv w1 = (Inr ks, w2) \<and> k \<in> set ks \<and>
        fetch k w3 = (Inr rs, w4) \<and> r \<in> set rs \<and> fileOf perm k r = Inr f)"

lemma mapE_elem: "mapE f xs = Inr ys \<Longrightarrow> y \<in> set ys \<Longrightarrow> \<exists>x\<in>set xs. f x = Inr y"
  by (induction xs arbitrary: ys) (auto split: sum.splits)

lemma mapS_elem:
  "mapS f xs s = (Inr ys, s') \<Longrightarrow> y \<in> set ys \<Longrightarrow> \<exists>x\<in>set xs. \<exists>t t'. f x t = (Inr y, t')"
proof (induction xs arbitrary: s ys)
  case (Cons x xs)
  from Cons.prems(1) obtain z s1 zs where x: "f x s = (Inr z, s1)" and xs: "mapS f xs s1 = (Inr zs, s')"
    and ys: "ys = z # zs" by (auto split: prod.splits sum.splits)
  show ?case using Cons.IH[OF xs] Cons.prems(2) x ys by auto
qed simp

lemma fetchFiles_from:
  assumes "fetchFiles resolve fetch perm kvs w = (Inr fs, w')" "f \<in> set fs"
  shows "\<exists>kv\<in>set kvs. \<exists>k r. fileFrom resolve fetch perm kv k r f"
proof -
  from assms(1) obtain fss where "mapS (fetchObject resolve fetch perm) kvs w = (Inr fss, w')" "fs = concat fss"
    by (auto simp: fetchFiles_def result_simps)
  with assms(2) obtain fs1 where "fs1 \<in> set fss" "f \<in> set fs1" by auto
  from mapS_elem[OF \<open>mapS _ _ _ = _\<close> this(1)] obtain kv t t' where kv: "kv \<in> set kvs"
    "fetchObject resolve fetch perm kv t = (Inr fs1, t')" by blast
  from kv(2) obtain ks t1 fss1 where ks: "resolve kv t = (Inr ks, t1)"
    "mapS (fetchResolved fetch perm) ks t1 = (Inr fss1, t')" "fs1 = concat fss1"
    by (auto simp: fetchObject_def result_simps)
  with \<open>f \<in> set fs1\<close> obtain fs2 where "fs2 \<in> set fss1" "f \<in> set fs2" by auto
  from mapS_elem[OF ks(2) this(1)] obtain k u u' where k: "k \<in> set ks" "fetchResolved fetch perm k u = (Inr fs2, u')"
    by blast
  from k(2) obtain rs u1 where "fetch k u = (Inr rs, u1)" "mapE (fileOf perm k) rs = Inr fs2"
    by (auto simp: fetchResolved_def result_simps)
  with mapE_elem[OF _ \<open>f \<in> set fs2\<close>] kv(1) ks(1) k(1) show ?thesis
    unfolding fileFrom_def by blast
qed

locale object_source =
  fixes resolve :: "keyVaultObject \<Rightarrow> ('w, keyVaultObject list) io"
    and fetch :: "keyVaultObject \<Rightarrow> ('w, kvContent list) io"
    and good :: "keyVaultObject \<Rightarrow> bool"
  assumes resolve_good: "good kv \<Longrightarrow> resolve kv w = (Inr ks, w') \<Longrightarrow> k \<in> set ks \<Longrightarrow> good k"
    and fetch_suffix: "fetch k w = (Inr rs, w') \<Longrightarrow> r \<in> set rs \<Longrightarrow> allowedSuffix (fileNameSuffix r)"
    and good_path: "good kv \<Longrightarrow> safePath (GetFileName kv)"
begin

lemma fetchFiles_safe:
  assumes "\<And>kv. kv \<in> set kvs \<Longrightarrow> good kv"
    and "fetchFiles resolve fetch perm kvs w = (Inr fs, w')" "f \<in> set fs"
  shows "safePath (sfPath f)"
proof -
  obtain kv k r where "kv \<in> set kvs" and f: "fileFrom resolve fetch perm kv k r f"
    using fetchFiles_from[OF assms(2,3)] by blast
  then have g: "good k" and suf: "allowedSuffix (fileNameSuffix r)" and "fileOf perm k r = Inr f"
    using assms(1) unfolding fileFrom_def by (blast intro: resolve_good fetch_suffix)+
  then have "sfPath f = GetFileName k @ fileNameSuffix r" by (auto simp: fileOf_def result_simps)
  with safePath_append[OF good_path[OF g], of "fileNameSuffix r"] suf show ?thesis
    by (auto simp: allowedSuffix_def)
qed

end

text \<open>
  What the operations do to the state: \<open>P True\<close> relates the states around a successful
  operation, \<open>P False\<close> those around a failing one.
\<close>

locale framed_source =
  fixes resolve :: "keyVaultObject \<Rightarrow> ('w, keyVaultObject list) io"
    and fetch :: "keyVaultObject \<Rightarrow> ('w, kvContent list) io"
    and P :: "bool \<Rightarrow> 'w \<Rightarrow> 'w \<Rightarrow> bool"
  assumes resolve_P: "resolve kv w = (r, w') \<Longrightarrow> P (\<not> isl r) w w'"
    and fetch_P: "fetch k w = (q, w') \<Longrightarrow> P (\<not> isl q) w w'"
    and P_refl: "P True w w"
    and P_trans: "P True w w1 \<Longrightarrow> P b w1 w2 \<Longrightarrow> P b w w2"
    and P_weaken: "P True w w' \<Longrightarrow> P False w w'"
begin

lemma P_any: "P True w w' \<Longrightarrow> P b w w'"
  by (cases b) (auto intro: P_weaken)

lemma sbind_P:
  assumes "sbind m f w = (r, w')"
    and "\<And>x t. m w = (x, t) \<Longrightarrow> P (\<not> isl x) w t"
    and "\<And>x t q u. m w = (Inr x, t) \<Longrightarrow> f x t = (q, u) \<Longrightarrow> P (\<not> isl q) t u"
  shows "P (\<not> isl r) w w'"
proof (cases "m w")
  case (Pair x t)
  show ?thesis
  proof (cases x)
    case (Inl e)
    with Pair assms(1) assms(2)[OF Pair] show ?thesis by (auto simp: sbind_def)
  next
    case (Inr y)
    with Pair assms(1) have "f y t = (r, w')" by (auto simp: sbind_def)
    with assms(2)[OF Pair] assms(3)[of y t] Pair Inr show ?thesis by (auto intro: P_trans)
  qed
qed

lemma mapS_P:
  assumes "\<And>x t q u. f x t = (q, u) \<Longrightarrow> P (\<not> isl q) t u"
  shows "mapS f xs w = (r, w') \<Longrightarrow> P (\<not> isl r) w w'"
proof (induction xs arbitrary: w r w')
  case (Cons x xs)
  obtain q t where x: "f x w = (q, t)" by fastforce
  show ?case
  proof (cases q)
    case (Inl e)
    with x Cons.prems assms[OF x] show ?thesis by auto
  next
    case (Inr y)
    obtain q2 u where xs: "mapS f xs t = (q2, u)" by fastforce
    have "isl r = isl q2" "u = w'" using Cons.prems x Inr xs by (auto split: sum.splits)
    with P_trans[of w t] assms[OF x] Inr Cons.IH[OF xs] show ?thesis by auto
  qed
qed (auto simp: P_refl)

lemma fetchResolved_P: "fetchResolved fetch perm k w = (r, w') \<Longrightarrow> P (\<not> isl r) w w'"
  unfolding fetchResolved_def by (erule sbind_P) (auto intro: fetch_P simp: P_any[OF P_refl])

lemma fetchObject_P: "fetchObject resolve fetch perm kv w = (r, w') \<Longrightarrow> P (\<not> isl r) w w'"
  unfolding fetchObject_def
proof (erule sbind_P, goal_cases)
  case (2 ks t q u)
  from 2(2) show ?case
    by (rule sbind_P) (auto intro: mapS_P[OF fetchResolved_P] simp: P_refl)
qed (rule resolve_P)

lemma fetchFiles_P: "fetchFiles resolve fetch perm kvs w = (r, w') \<Longrightarrow> P (\<not> isl r) w w'"
  unfolding fetchFiles_def
  by (erule sbind_P) (auto intro: mapS_P[OF fetchObject_P] simp: P_refl)

end

section \<open>The vault client keeps the contracts\<close>

lemma resolveObjectVersions_elem:
  assumes "resolveObjectVersions sdk sortf c kv w = (Inr ks, w')" "k \<in> set ks"
  shows "IsSyncingSingleVersion kv \<and> k = kv \<or>
    \<not> IsSyncingSingleVersion kv \<and>
    (\<exists>i v. k = numbered kv i v \<and> i \<le> nat (sint (ObjectVersionHistory kv)))"
  using assms getLatestN_elem[of k sortf kv]
  by (auto simp: resolveObjectVersions_def result_simps split: if_splits)

definition requestLog :: "bool \<Rightarrow> 'v world \<Rightarrow> 'v world \<Rightarrow> bool" where
  "requestLog b w w' \<longleftrightarrow> environ w' = environ w \<and>
     (\<exists>new. reports w' = reports w @ new \<and>
        (\<forall>r\<in>set (if b then new else butlast new). repError r = None))"

lemma requestLog_one:
  assumes "environ w' = environ w \<and>
    (\<exists>e. reports w' = reports w @ [\<lparr>repObjectType = ty, repObjectName = nm, repError = e\<rparr>] \<and>
      e = (case r of Inl x \<Rightarrow> if is_panic x then None else Some x | Inr _ \<Rightarrow> None))"
  shows "requestLog (\<not> isl r) w w'"
  using assms by (cases r) (auto simp: requestLog_def)

lemma requestLog_trans:
  assumes "requestLog True w w1" "requestLog b w1 w2"
  shows "requestLog b w w2"
proof -
  from assms(1) obtain n1 where n1: "environ w1 = environ w" "reports w1 = reports w @ n1"
    "\<forall>r\<in>set n1. repError r = None" by (auto simp: requestLog_def)
  from assms(2) obtain n2 where n2: "environ w2 = environ w1" "reports w2 = reports w1 @ n2"
    "\<forall>r\<in>set (if b then n2 else butlast n2). repError r = None" unfolding requestLog_def by blast
  have "set (if b then n1 @ n2 else butlast (n1 @ n2)) \<subseteq> set n1 \<union> set (if b then n2 else butlast n2)"
    by (auto simp: butlast_append dest: in_set_butlastD)
  with n1(3) n2(3) have "\<forall>r\<in>set (if b then n1 @ n2 else butlast (n1 @ n2)). repError r = None" by blast
  with n1 n2 show ?thesis unfolding requestLog_def by (intro conjI exI[of _ "n1 @ n2"]) auto
qed

lemma requestLog_refl: "requestLog b w w"
  by (auto simp: requestLog_def)

lemma requestLog_weaken: "requestLog True w w' \<Longrightarrow> requestLog False w w'"
  by (auto simp: requestLog_def dest: in_set_butlastD)

interpretation vaultSource: object_source
  "resolveObjectVersions sdk sortf c" "getKeyVaultObjectContent sdk lib p c" "\<lambda>kv. safePath (GetFileName kv)"
  for sdk sortf c lib p
  by unfold_locales (auto dest: resolveObjectVersions_elem content_suffix intro: numbered_safe)

interpretation vaultFrame: framed_source
  "resolveObjectVersions sdk sortf c" "getKeyVaultObjectContent sdk lib p c" requestLog
  for sdk sortf c lib p
proof (unfold_locales, goal_cases)
  case (1 kv w r w')
  show ?case
  proof (cases "IsSyncingSingleVersion kv")
    case True
    with 1 show ?thesis by (auto simp: resolveObjectVersions_def requestLog_refl)
  next
    case False
    obtain q t where q: "getKeyVaultObjectVersions sdk c kv w = (q, t)" by fastforce
    from requestLog_one[OF getKeyVaultObjectVersions_report[OF q]] 1 False q show ?thesis
      by (auto simp: resolveObjectVersions_def sbind_def split: sum.splits)
  qed
next
  case (2 k w q w')
  from requestLog_one[OF getKeyVaultObjectContent_report[OF 2]] show ?case .
next
  case (4 w w1 b w2)
  then show ?case by (rule requestLog_trans)
qed (auto intro: requestLog_refl requestLog_weaken)

section \<open>Facts on the mount operation\<close>

lemma setAzureEnvironmentFilePath_frame:
  assumes "setAzureEnvironmentFilePath f w = (r, w')"
  shows "vault w' = vault w \<and> reports w' = reports w \<and>
    (w' = w \<or> f \<noteq> [] \<and> environ w' = (environ w)(EnvironmentFilepathName \<mapsto> f))"
  using assms by (auto simp: setAzureEnvironmentFilePath_def Setenv_def split: if_splits)

lemma buildMount_frame:
  assumes "buildMount d p attrib secrets mode w = (r, w')"
  shows "vault w' = vault w \<and> reports w' = reports w \<and>
    (environ w' = environ w \<or> GetCloudEnvFileName attrib \<noteq> [] \<and>
     environ w' = (environ w)(EnvironmentFilepathName \<mapsto> GetCloudEnvFileName attrib))"
proof -
  obtain q t where q: "setAzureEnvironmentFilePath (GetCloudEnvFileName attrib) w = (q, t)" by fastforce
  have "w' = t"
    using assms q by (auto simp: buildMount_def sbind_def split: prod.splits sum.splits)
  with setAzureEnvironmentFilePath_frame[OF q] show ?thesis by auto
qed

lemma parseObject_valid:
  assumes "parseObject unmarshal io = Inr kv"
  shows "validate kv = Inr () \<and> formatKeyVaultObject (Some kv) = Some kv"
proof -
  from assms obtain kv0 where "kv = the (formatKeyVaultObject (Some kv0))" "validate kv = Inr ()"
    by (auto simp: parseObject_def Let_def result_simps split: prod.splits)
  moreover have "formatKeyVaultObject (Some kv0) = Some (the (formatKeyVaultObject (Some kv0)))"
    by (simp add: formatKeyVaultObject_def)
  ultimately show ?thesis using formatKeyVaultObject_idem[of "Some kv0"] by metis
qed

lemma parseObjects_valid:
  assumes "parseObjects d attrib = Inr kvs" "kv \<in> set kvs"
  shows "validate kv = Inr ()" "formatKeyVaultObject (Some kv) = Some kv"
proof -
  from assms(1) obtain ios where "mapE (parseObject (depUnmarshalObject d)) ios = Inr kvs"
    by (auto simp: parseObjects_def Let_def rbind_eq_Inr)
  from mapE_elem[OF this assms(2)] parseObject_valid
  show "validate kv = Inr ()" "formatKeyVaultObject (Some kv) = Some kv" by blast+
qed

text \<open>The stages of a mount; \<open>w1\<close> is the state after the environment variable was set.\<close>

definition mountStages ::
  "('v, 't, 'c, 'h, 'k) deps \<Rightarrow> 't authGlobals \<Rightarrow> provider \<Rightarrow> params \<Rightarrow> (string \<times> string) list option \<Rightarrow>
   'v world \<Rightarrow> mountConfig \<Rightarrow> 'v world \<Rightarrow> keyVaultObject list \<Rightarrow> 'h kvClient \<Rightarrow> bool" where
  "mountStages d g p attrib secrets w mc w1 kvs c \<longleftrightarrow>
     (\<exists>mode. readParameters attrib = Inr mode \<and> buildMount d p attrib secrets mode w = (Inr mc, w1)) \<and>
     parseObjects d attrib = Inr kvs \<and> kvs \<noteq> [] \<and> openVault d g mc = Inr c"

lemma mount_cases:
  assumes run: "GetSecretsStoreObjectContent d g p attrib secrets perm w = (r, w')"
  obtains (early) "vault w' = vault w" "reports w' = reports w" "isl r \<or> r = Inr []"
      "environ w' = environ w \<or> GetCloudEnvFileName attrib \<noteq> [] \<and>
       environ w' = (environ w)(EnvironmentFilepathName \<mapsto> GetCloudEnvFileName attrib)"
  | (fetched) mc w1 kvs c where "mountStages d g p attrib secrets w mc w1 kvs c"
      "vault w1 = vault w" "reports w1 = reports w"
      "environ w1 = environ w \<or> GetCloudEnvFileName attrib \<noteq> [] \<and>
       environ w1 = (environ w)(EnvironmentFilepathName \<mapsto> GetCloudEnvFileName attrib)"
      "fetchFiles (resolveObjectVersions (depSdk d) (depSort d) c)
         (getKeyVaultObjectContent (depSdk d) (depCrypto d) p c) perm kvs w1 = (r, w')"
proof (cases "readParameters attrib")
  case (Inl e)
  with run early show ?thesis by (auto simp: GetSecretsStoreObjectContent_def)
next
  case (Inr mode)
  note mode = Inr
  obtain q t where bm: "buildMount d p attrib secrets mode w = (q, t)" by fastforce
  note fr = buildMount_frame[OF bm]
  show ?thesis
  proof (cases q)
    case (Inl e)
    with run mode bm have "r = Inl e" "w' = t" by (auto simp: GetSecretsStoreObjectContent_def sbind_def)
    with fr early show ?thesis by simp
  next
    case (Inr mc)
    note mc = Inr
    show ?thesis
    proof (cases "\<exists>kvs c. parseObjects d attrib = Inr kvs \<and> kvs \<noteq> [] \<and> openVault d g mc = Inr c")
      case True
      then obtain kvs c where kc: "parseObjects d attrib = Inr kvs" "kvs \<noteq> []" "openVault d g mc = Inr c" by blast
      with mode bm mc have st: "mountStages d g p attrib secrets w mc t kvs c" by (auto simp: mountStages_def)
      show ?thesis
        by (rule fetched[OF st]) (use fr run mode bm mc kc in \<open>auto simp: GetSecretsStoreObjectContent_def sbind_def\<close>)
    next
      case False
      then have "w' = t" "isl r \<or> r = Inr []"
        using run mode bm mc
        by (cases "parseObjects d attrib"; cases "openVault d g mc";
            auto simp: GetSecretsStoreObjectContent_def sbind_def split: if_splits)+
      with fr early show ?thesis by simp
    qed
  qed
qed

lemma mountStages_valid:
  "mountStages d g p attrib secrets w mc w1 kvs c \<Longrightarrow> kv \<in> set kvs \<Longrightarrow> validate kv = Inr ()"
  by (auto simp: mountStages_def dest: parseObjects_valid)

lemma vaultNameChar_set:
  "vaultNameChar c \<longleftrightarrow> c \<in> set ''-0123456789ABCDEFGHIJKLMNOPQRSTUVWXYZabcdefghijklmnopqrstuvwxyz''"
proof -
  let ?ns = "45 # [48..<58] @ [65..<91] @ [97..<123] :: nat list"
  have "vaultNameChar c \<longleftrightarrow> of_char c \<in> set ?ns" 
    unfolding vaultNameChar_def Let_def list.set set_append set_upt insert_iff Un_iff atLeastLessThan_iff by presburger
  also have "\<dots> \<longleftrightarrow> c \<in> set (map char_of ?ns)"
  proof
    assume "of_char c \<in> set ?ns"
    then show "c \<in> set (map char_of ?ns)" by (metis char_of_char image_eqI set_map)
  next
    assume "c \<in> set (map char_of ?ns)"
    then obtain n where n: "n \<in> set ?ns" "c = char_of n" unfolding set_map by blast
    then have "n < 256" unfolding list.set set_append set_upt insert_iff Un_iff atLeastLessThan_iff by linarith
    then have "of_char c = n" using n(2) by simp
    then show "of_char c \<in> set ?ns" using n(1) by (simp only:)
  qed
  also have "map char_of ?ns = ''-0123456789ABCDEFGHIJKLMNOPQRSTUVWXYZabcdefghijklmnopqrstuvwxyz''"
    by code_simp
  finally show ?thesis .
qed

lemma plain_secret_run:
  assumes stages: "mountStages d g p attrib secrets w mc w1 [kv] c"
    and kv: "ObjectType kv = ''secret''" "ObjectEncoding kv = []" "IsSyncingSingleVersion kv"
    and get: "GetSecret (depSdk d) c (ObjectName kv) (ObjectVersion kv) (vault w1) =
      (Inr \<lparr>sbValue = Some val, sbID = Some ident, sbKid = None, sbContentType = ct\<rparr>, v2)"
  shows "\<exists>w2. GetSecretsStoreObjectContent d g p attrib secrets perm w =
    (Inr [\<lparr>sfContent = val, sfPath = GetFileName kv, sfFileMode = fst (GetFilePermission kv perm),
          sfUID = ''secret/'' @ ObjectName kv, sfVersion = SecretIDVersion (depSdk d) ident\<rparr>], w2) \<and>
    reports w2 = reports w @ [\<lparr>repObjectType = ''secret'', repObjectName = ObjectName kv, repError = None\<rparr>]"
proof -
  from stages obtain mode where st: "readParameters attrib = Inr mode" "buildMount d p attrib secrets mode w = (Inr mc, w1)"
    "parseObjects d attrib = Inr [kv]" "openVault d g mc = Inr c" by (auto simp: mountStages_def)
  let ?r = "\<lparr>content = val, fileNameSuffix = [], version = SecretIDVersion (depSdk d) ident\<rparr>"
  have "fst (getSecret (depSdk d) (depCrypto d) p c kv (vault w1)) = Inr [?r]"
    using get by (simp add: getSecret_def secretObjects_def)
  then have "fst (getKeyVaultObjectContent (depSdk d) (depCrypto d) p c kv w1) = Inr [?r]"
    using kv(1) by (simp add: getKeyVaultObjectContent_def reportRequest_result onVault_result VaultObjectTypeSecret_def)
  then obtain w2 where "getKeyVaultObjectContent (depSdk d) (depCrypto d) p c kv w1 = (Inr [?r], w2)"
    by (metis prod.collapse)
  note fetch = this
  let ?f = "\<lparr>sfContent = val, sfPath = GetFileName kv, sfFileMode = fst (GetFilePermission kv perm),
          sfUID = ''secret/'' @ ObjectName kv, sfVersion = SecretIDVersion (depSdk d) ident\<rparr>"
  let ?fetch = "getKeyVaultObjectContent (depSdk d) (depCrypto d) p c"
  let ?resolve = "resolveObjectVersions (depSdk d) (depSort d) c"
  have "fileOf perm kv ?r = Inr ?f"
    using kv by (simp add: fileOf_def getContentBytes_def GetObjectUID_def)
  then have "fetchResolved ?fetch perm kv w1 = (Inr [?f], w2)"
    by (simp add: fetchResolved_def sbind_apply fetch)
  moreover have "?resolve kv w1 = (Inr [kv], w1)" using kv(3) by (simp add: resolveObjectVersions_def)
  ultimately have "fetchObject ?resolve ?fetch perm kv w1 = (Inr [?f], w2)"
    by (simp add: fetchObject_def sbind_apply)
  then have ff: "fetchFiles ?resolve ?fetch perm [kv] w1 = (Inr [?f], w2)"
    by (simp add: fetchFiles_def sbind_apply)
  have "reports w2 = reports w @ [\<lparr>repObjectType = ''secret'', repObjectName = ObjectName kv, repError = None\<rparr>]"
    using getKeyVaultObjectContent_report[OF fetch] buildMount_frame[OF st(2)] kv(1) by simp
  then show ?thesis by (simp add: GetSecretsStoreObjectContent_def sbind_apply st ff)
qed

lemma mount_safe:
  assumes "GetSecretsStoreObjectContent d g p attrib secrets perm w = (Inr files, w')" "f \<in> set files"
  shows "safePath (sfPath f)"
  using assms(1)
proof (cases rule: mount_cases)
  case early
  with assms(2) show ?thesis by simp
next
  case (fetched mc w1 kvs c)
  have "safePath (GetFileName kv)" if "kv \<in> set kvs" for kv
    using mountStages_valid[OF fetched(1) that] by (rule validate_safe)
  from vaultSource.fetchFiles_safe[OF this fetched(5) assms(2)] show ?thesis .
qed

lemma mount_frame:
  assumes "GetSecretsStoreObjectContent d g p attrib secrets perm w = (r, w')"
  shows "\<exists>new. reports w' = reports w @ new \<and>
      (\<forall>q\<in>set (if isl r then butlast new else new). repError q = None)"
    and "environ w' = environ w \<or> GetCloudEnvFileName attrib \<noteq> [] \<and>
      environ w' = (environ w)(EnvironmentFilepathName \<mapsto> GetCloudEnvFileName attrib)"
proof -
  let ?Q = "(\<exists>new. reports w' = reports w @ new \<and>
      (\<forall>q\<in>set (if isl r then butlast new else new). repError q = None)) \<and>
    (environ w' = environ w \<or> GetCloudEnvFileName attrib \<noteq> [] \<and>
      environ w' = (environ w)(EnvironmentFilepathName \<mapsto> GetCloudEnvFileName attrib))"
  from assms have ?Q
  proof (cases rule: mount_cases)
    case early
    then show ?thesis by auto
  next
    case (fetched mc w1 kvs c)
    from vaultFrame.fetchFiles_P[OF fetched(5)] fetched(3,4) show ?thesis
      unfolding requestLog_def by (cases r) auto
  qed
  then show "\<exists>new. reports w' = reports w @ new \<and>
      (\<forall>q\<in>set (if isl r then butlast new else new). repError q = None)"
    and "environ w' = environ w \<or> GetCloudEnvFileName attrib \<noteq> [] \<and>
      environ w' = (environ w)(EnvironmentFilepathName \<mapsto> GetCloudEnvFileName attrib)" by blast+
qed

section \<open>Properties\<close>

text \<open>
  Property C1. No mount can write outside its volume: whatever the vault returns and whatever the
  SecretProviderClass says, every path in the result is non-empty, relative and without a parent
  directory element.
\<close>

theorem mount_paths_safe:
  assumes "GetSecretsStoreObjectContent d g p attrib secrets perm w = (Inr files, w')" "f \<in> set files"
  shows "safePath (sfPath f)"
  using assms by (rule mount_safe)

text \<open>
  Property C6. The vault is touched only after everything has been checked: if a mount made a
  request or changed the vault, then the parameters were read, the credential configuration was
  built, at least one object was requested, every requested object was valid, and the vault name
  and the credential were accepted.
\<close>

theorem mount_checked_before_access:
  assumes "GetSecretsStoreObjectContent d g p attrib secrets perm w = (r, w')"
    and "vault w' \<noteq> vault w \<or> reports w' \<noteq> reports w"
  shows "\<exists>mc w1 kvs c. mountStages d g p attrib secrets w mc w1 kvs c \<and>
    (\<forall>kv\<in>set kvs. validate kv = Inr ())"
  using assms(1)
proof (cases rule: mount_cases)
  case early
  with assms(2) show ?thesis by simp
next
  case (fetched mc w1 kvs c)
  with mountStages_valid[OF fetched(1)] show ?thesis by blast
qed

text \<open>
  Property C27. Every request to the vault is reported, and the first failure ends the mount: the
  reports only grow; after a success none of the new reports carries an error; after a failure at
  most the last one does.
\<close>

theorem mount_reports:
  assumes "GetSecretsStoreObjectContent d g p attrib secrets perm w = (r, w')"
  shows "\<exists>new. reports w' = reports w @ new \<and>
    (\<forall>q\<in>set (if isl r then butlast new else new). repError q = None)"
  using assms by (rule mount_frame)

text \<open>
  A mount changes no other environment variable than AZURE_ENVIRONMENT_FILEPATH, and
  this one only to the file name given in the parameters; without a file name the environment is
  unchanged.
\<close>

lemma mount_environ:
  assumes "GetSecretsStoreObjectContent d g p attrib secrets perm w = (r, w')"
  shows "environ w' = environ w \<or> GetCloudEnvFileName attrib \<noteq> [] \<and>
    environ w' = (environ w)(''AZURE_ENVIRONMENT_FILEPATH'' \<mapsto> GetCloudEnvFileName attrib)"
  using mount_frame(2)[OF assms] by (simp add: EnvironmentFilepathName_def)

text \<open>
  Property C8. Every file of a mount belongs to a requested object: its identifier is the object's
  type and name, its path the object's file name, both followed by the index of the version when
  several versions are synced, the path by one of the three suffixes; its mode is the object's
  permission or the default.
\<close>

theorem mount_file_origin:
  assumes "GetSecretsStoreObjectContent d g p attrib secrets perm w = (Inr files, w')" "f \<in> set files"
  shows "\<exists>kvs kv suf. parseObjects d attrib = Inr kvs \<and> kv \<in> set kvs \<and> suf \<in> {[], ''.crt'', ''.key''} \<and>
    sfFileMode f = fst (GetFilePermission kv perm) \<and>
    (if IsSyncingSingleVersion kv
     then sfUID f = ObjectType kv @ ''/'' @ ObjectName kv \<and> sfPath f = GetFileName kv @ suf
     else \<exists>i\<le>nat (sint (ObjectVersionHistory kv)).
       sfUID f = ObjectType kv @ ''/'' @ ObjectName kv @ ''/'' @ Itoa i \<and>
       sfPath f = Join (GetFileName kv) (Itoa i) @ suf)"
  using assms(1)
proof (cases rule: mount_cases)
  case early
  with assms(2) show ?thesis by simp
next
  case (fetched mc w1 kvs c)
  from fetchFiles_from[OF fetched(5) assms(2)] obtain kv k r w2 ks w3 w4 rs w5 where kv: "kv \<in> set kvs"
    and res: "resolveObjectVersions (depSdk d) (depSort d) c kv w2 = (Inr ks, w3)" "k \<in> set ks"
    and fet: "getKeyVaultObjectContent (depSdk d) (depCrypto d) p c k w4 = (Inr rs, w5)" "r \<in> set rs"
    and fo: "fileOf perm k r = Inr f"
    unfolding fileFrom_def by blast
  have suf: "fileNameSuffix r \<in> {[], ''.crt'', ''.key''}"
    using content_suffix[OF fet] by (simp add: allowedSuffix_def)
  have f: "sfPath f = GetFileName k @ fileNameSuffix r" "sfUID f = GetObjectUID k"
    "sfFileMode f = fst (GetFilePermission k perm)"
    using fo by (auto simp: fileOf_def result_simps)
  have perm: "GetFilePermission k perm = GetFilePermission kv perm"
    using resolveObjectVersions_elem[OF res] by (auto simp: GetFilePermission_def)
  have "if IsSyncingSingleVersion kv
     then sfUID f = ObjectType kv @ ''/'' @ ObjectName kv \<and> sfPath f = GetFileName kv @ fileNameSuffix r
     else \<exists>i\<le>nat (sint (ObjectVersionHistory kv)).
       sfUID f = ObjectType kv @ ''/'' @ ObjectName kv @ ''/'' @ Itoa i \<and>
       sfPath f = Join (GetFileName kv) (Itoa i) @ fileNameSuffix r"
    using resolveObjectVersions_elem[OF res] f numbered_UID[of kv] numbered_FileName[of kv]
    by (auto simp: GetObjectUID_def[of kv])
  with fetched(1) kv suf f(3) perm show ?thesis unfolding mountStages_def by metis
qed

text \<open>
  The identity mode is decided exactly by the three flags: none gives the fallback
  mode, one gives its mode, and any two together are refused.
\<close>

lemma selectIdentityMode_table:
  "selectIdentityMode pod vm proxy =
     (case (pod, vm, proxy) of
        (False, False, False) \<Rightarrow> Inr IdentityModeNone
      | (True, False, False) \<Rightarrow> Inr IdentityModePodIdentity
      | (False, True, False) \<Rightarrow> Inr IdentityModeVMManagedIdentity
      | (False, False, True) \<Rightarrow> Inr IdentityModeAzureTokenProxy
      | _ \<Rightarrow> Inl errModes)"
  by (cases pod; cases vm; cases proxy) (simp_all add: selectIdentityMode_def)

text \<open>
  Property C15. Tokens never cross audiences: the configuration built for identity binding depends
  on no other service account token than the one for the identity binding audience, and in every
  other mode on no other than the one for the token exchange audience.
\<close>

theorem buildAuthConfig_audience:
  "buildAuthConfig (\<lambda>_. Inr tokens) input =
   buildAuthConfig (\<lambda>_. Inr (tokens |` {if aciIdentityMode input = IdentityModeAzureTokenProxy
      then ''api://AKSIdentityBinding'' else ''api://AzureADTokenExchange''})) input"
  by (simp add: buildAuthConfig_def ParseIdentityBindingToken_def ParseServiceAccountToken_def
      parseTokenForAudience_def IdentityBindingTokenAudience_def DefaultTokenAudience_def restrict_map_def)

text \<open>
  Property C23. A configuration that was built is complete: identity binding has a client id and a
  token, the fallback mode has either these or a client id and a secret, so that making the
  credential never ends in the errors for missing fields.
\<close>

theorem buildAuthConfig_complete:
  assumes "buildAuthConfig unmarshal input = Inr c"
  shows "cfgIdentityMode c = aciIdentityMode input \<and>
    (cfgIdentityMode c = IdentityModeAzureTokenProxy \<longrightarrow>
       cfgWorkloadIdentityClientID c \<noteq> [] \<and> cfgServiceAccountToken c \<noteq> []) \<and>
    (cfgIdentityMode c = IdentityModeNone \<longrightarrow>
       cfgWorkloadIdentityClientID c \<noteq> [] \<and> cfgServiceAccountToken c \<noteq> [] \<or>
       cfgAADClientID c \<noteq> [] \<and> cfgAADClientSecret c \<noteq> [])"
  using assms
  by (auto simp: buildAuthConfig_def result_simps ParseIdentityBindingToken_def ParseServiceAccountToken_def
      parseTokenForAudience_eq_Inr NewConfig_def Let_def split: if_splits dest: getCredential_eq_Inr)

text \<open>
  Property C28. A vault URL is made exactly for names of 3 to 24 letters, digits and hyphens, so
  that the name is one label of the host and cannot change the scheme, the host suffix or the
  path.
\<close>

theorem getVaultURL_iff:
  "getVaultURL mc = Inr url \<longleftrightarrow>
     3 \<le> length (mcKeyvaultName mc) \<and> length (mcKeyvaultName mc) \<le> 24 \<and>
     set (mcKeyvaultName mc) \<subseteq> set ''-0123456789ABCDEFGHIJKLMNOPQRSTUVWXYZabcdefghijklmnopqrstuvwxyz'' \<and>
     url = ''https://'' @ mcKeyvaultName mc @ ''.'' @ KeyVaultDNSSuffix (mcAzureCloudEnvironment mc) @ ''/''"
  by (auto simp: getVaultURL_def Let_def list_all_iff vaultNameChar_set subset_iff not_less)

text \<open>
  Property C9. A plain secret gets through a mount unchanged: when the stages before the vault
  succeed, one secret of a single version without encoding is requested and the vault returns a
  value for it, the mount succeeds with exactly one file with that value, under the object's file
  name, with the version of the returned identifier.
\<close>

theorem mount_plain_secret:
  assumes stages: "mountStages d g p attrib secrets w mc w1 [kv] c"
    and kv: "ObjectType kv = ''secret''" "ObjectEncoding kv = []" "IsSyncingSingleVersion kv"
    and get: "GetSecret (depSdk d) c (ObjectName kv) (ObjectVersion kv) (vault w1) =
      (Inr \<lparr>sbValue = Some val, sbID = Some ident, sbKid = None, sbContentType = ct\<rparr>, v2)"
  shows "fst (GetSecretsStoreObjectContent d g p attrib secrets perm w) =
    Inr [\<lparr>sfContent = val, sfPath = GetFileName kv, sfFileMode = fst (GetFilePermission kv perm),
          sfUID = ''secret/'' @ ObjectName kv, sfVersion = SecretIDVersion (depSdk d) ident\<rparr>]"
  using plain_secret_run[OF assms, of perm] by auto

section \<open>Witnesses\<close>

text \<open>One pod that asks for one base64 secret with its own identity.\<close>

definition toyAttrib :: params where
  "toyAttrib = map_of
     [(CSIAttributePodName, ''pod''), (CSIAttributePodNamespace, ''ns''), (UseVMManagedIdentityParameter, '' true''),
      (KeyVaultNameParameter, ''kv1''), (TenantIDParameter, ''tenant''), (CloudEnvFileNameParameter, ''/env.json''),
      (ObjectsParameter, ''o'')]"

definition toyDeps :: "string \<Rightarrow> (unit, string, string list, nat, string) deps" where
  "toyDeps enc = \<lparr>
     depSdk = \<lparr>NewSecretsClient = (\<lambda>u c. Inr 0), NewKeysClient = (\<lambda>u c. Inr 0), NewCertificatesClient = (\<lambda>u c. Inr 0),
       SdkGetSecret = toyGetSecret, SdkGetKey = (\<lambda>h n v s. (Inl (External ''404''), s)),
       SdkGetCertificate = (\<lambda>h n v s. (Inl (External ''404''), s)),
       NewListSecretVersionsPager = (\<lambda>h n. 2), NewListKeyVersionsPager = (\<lambda>h n. 2),
       NewListCertificateVersionsPager = (\<lambda>h n. 2), More = More toyKvSdk, NextPage = NextPage toyKvSdk,
       SecretIDVersion = id, KeyIDVersion = id, CertificateIDVersion = id\<rparr>,
     depIdentity = toySdk,
     depCrypto = toyLib,
     depEnvironmentFromName = (\<lambda>env n. Inl (External ''no such cloud'')),
     depUnmarshalArray = (\<lambda>s. Inr [s]),
     depUnmarshalObject = (\<lambda>s. Inr (toyObject '' secret '' enc)),
     depSort = insertionSort\<rparr>"

definition toyWorld :: "unit world" where
  "toyWorld = \<lparr>environ = Map.empty, reports = [], vault = ()\<rparr>"

lemmas toy_mount_defs = toyAttrib_def toyDeps_def toyWorld_def

lemma toy_params:
  "readParameters toyAttrib = Inr IdentityModeVMManagedIdentity"
  "GetCloudEnvFileName toyAttrib = ''/env.json''" "GetCloudName toyAttrib = []"
  "GetKeyVaultName toyAttrib = ''kv1''" "GetTenantID toyAttrib = ''tenant''" "GetObjects toyAttrib = ''o''"
  "GetPodName toyAttrib = ''pod''" "GetPodNamespace toyAttrib = ''ns''" "GetClientID toyAttrib = []"
  "GetServiceAccountTokens toyAttrib = []" "GetUserAssignedIdentityID toyAttrib = []"
  by code_simp+

definition toyFile :: secretFile where
  "toyFile = \<lparr>sfContent = ''YWJj'', sfPath = ''s'', sfFileMode = 420, sfUID = ''secret/s'', sfVersion = ''v1''\<rparr>"

definition toyMount :: "secretFile list result \<times> unit world" where
  "toyMount = GetSecretsStoreObjectContent (toyDeps []) toyGlobals toyProvider toyAttrib None 420 toyWorld"

lemma toy_parse: "parseObjects (toyDeps []) toyAttrib = Inr [toyObject ''secret'' []]"
proof -
  have "the (formatKeyVaultObject (Some (toyObject '' secret '' []))) = toyObject ''secret'' []" by code_simp
  moreover have "validate (toyObject ''secret'' []) = Inr ()" by code_simp
  ultimately show ?thesis
    by (simp add: parseObjects_def parseObject_def toy_params GetObjectsArray_def toyDeps_def)
qed

lemma toy_stages_any:
  assumes "depIdentity d = toySdk" "parseObjects d toyAttrib = Inr kvs" "kvs \<noteq> []"
    and "\<And>u cred. NewClient (depSdk d) cred u = Inr c"
  shows "\<exists>mc w1. mountStages d toyGlobals toyProvider toyAttrib None w mc w1 kvs c \<and> vault w1 = vault w"
proof -
  let ?c = "\<lparr>cfgIdentityMode = IdentityModeVMManagedIdentity, cfgUserAssignedIdentityID = [], cfgAADClientSecret = [],
    cfgAADClientID = [], cfgWorkloadIdentityClientID = [], cfgServiceAccountToken = []\<rparr>"
  let ?mc = "\<lparr>mcKeyvaultName = ''kv1'', mcAzureCloudEnvironment = defaultCloudEnvironment toyProvider, mcAuthConfig = ?c,
    mcTenantID = ''tenant'', mcPodName = ''pod'', mcPodNamespace = ''ns''\<rparr>"
  have auth: "buildAuthConfig u (authInput toyAttrib None IdentityModeVMManagedIdentity) = Inr ?c" for u
    by (simp add: buildAuthConfig_def authInput_def toy_params NewConfig_def)
  then have "\<exists>w1. buildMount d toyProvider toyAttrib None IdentityModeVMManagedIdentity w = (Inr ?mc, w1) \<and> vault w1 = vault w"
    by (simp add: buildMount_def sbind_apply toy_params setAzureEnvironmentFilePath_def Setenv_def parseAzureEnvironment_def)
  moreover have "getVaultURL ?mc = Inr (''https://kv1.vault.azure.net/'')" by code_simp
  then have "openVault d toyGlobals ?mc = Inr c"
    using assms(1,4) by (simp add: openVault_def initializeKvClient_def GetCredential_def
        getManagedIdentityTokenCredential_def toySdk_def)
  ultimately show ?thesis using assms(2,3) toy_params(1) by (auto simp: mountStages_def)
qed

lemma toy_stages:
  "\<exists>mc w1. mountStages (toyDeps []) toyGlobals toyProvider toyAttrib None toyWorld mc w1 [toyObject ''secret'' []] toyClient"
proof -
  have "NewClient (depSdk (toyDeps [])) cred u = Inr toyClient" for cred u
    by (simp add: NewClient_def toyDeps_def toyClient_def)
  with toy_stages_any[OF _ toy_parse] show ?thesis by (force simp: toyDeps_def)
qed

lemma toy_get:
  "GetSecret (depSdk (toyDeps [])) toyClient n v s =
     (Inr \<lparr>sbValue = Some ''YWJj'', sbID = Some ''v1'', sbKid = None, sbContentType = None\<rparr>, s)"
  by (simp add: toyGetSecret_def GetSecret_def toyDeps_def toyKvSdk_def)

lemma toy_run:
  obtains w' where "GetSecretsStoreObjectContent (toyDeps []) toyGlobals toyProvider toyAttrib None 420 toyWorld = (Inr [toyFile], w')"
    "reports w' = [\<lparr>repObjectType = ''secret'', repObjectName = ''s'', repError = None\<rparr>]" "w' = snd toyMount"
proof -
  obtain mc w1 where st: "mountStages (toyDeps []) toyGlobals toyProvider toyAttrib None toyWorld mc w1 [toyObject ''secret'' []] toyClient"
    using toy_stages by blast
  have "GetFileName (toyObject ''secret'' []) = ''s''" "fst (GetFilePermission (toyObject ''secret'' []) 420) = 420"
    by (simp_all add: toyObject_def GetFileName_def GetFilePermission_def)
  with plain_secret_run[OF st _ _ _ toy_get, of 420] obtain w2
    where "GetSecretsStoreObjectContent (toyDeps []) toyGlobals toyProvider toyAttrib None 420 toyWorld = (Inr [toyFile], w2)"
      "reports w2 = [\<lparr>repObjectType = ''secret'', repObjectName = ''s'', repError = None\<rparr>]"
    by (auto simp: toyObject_def IsSyncingSingleVersion_def toyFile_def toyDeps_def toyWorld_def)
  then show thesis using that by (simp add: toyMount_def)
qed

theorem mount_paths_safe_witness: "safePath (sfPath toyFile)"
proof -
  obtain w' where "GetSecretsStoreObjectContent (toyDeps []) toyGlobals toyProvider toyAttrib None 420 toyWorld = (Inr [toyFile], w')"
    by (rule toy_run)
  from mount_paths_safe[OF this, of toyFile] show ?thesis by simp
qed

theorem mount_checked_before_access_witness:
  "\<exists>mc w1 kvs c. mountStages (toyDeps []) toyGlobals toyProvider toyAttrib None toyWorld mc w1 kvs c \<and>
    (\<forall>kv\<in>set kvs. validate kv = Inr ())"
proof -
  obtain w' where run: "GetSecretsStoreObjectContent (toyDeps []) toyGlobals toyProvider toyAttrib None 420 toyWorld = (Inr [toyFile], w')"
    and rep: "reports w' = [\<lparr>repObjectType = ''secret'', repObjectName = ''s'', repError = None\<rparr>]"
    by (rule toy_run)
  have "reports w' \<noteq> reports toyWorld" using rep by (simp add: toyWorld_def)
  with mount_checked_before_access[OF run] show ?thesis by blast
qed

theorem mount_reports_witness:
  "\<exists>new. reports (snd toyMount) = reports toyWorld @ new \<and> (\<forall>q\<in>set new. repError q = None)"
proof -
  obtain w' where run: "GetSecretsStoreObjectContent (toyDeps []) toyGlobals toyProvider toyAttrib None 420 toyWorld = (Inr [toyFile], w')"
    and w': "w' = snd toyMount"
    by (rule toy_run)
  from mount_reports[OF run] show ?thesis unfolding w' by simp
qed

lemma mount_environ_witness:
  "environ (snd toyMount) = environ toyWorld \<or>
   environ (snd toyMount) = (environ toyWorld)(''AZURE_ENVIRONMENT_FILEPATH'' \<mapsto> ''/env.json'')"
proof -
  obtain w' where run: "GetSecretsStoreObjectContent (toyDeps []) toyGlobals toyProvider toyAttrib None 420 toyWorld = (Inr [toyFile], w')"
    and w': "w' = snd toyMount"
    by (rule toy_run)
  from mount_environ[OF run] show ?thesis unfolding w' toy_params by blast
qed

theorem mount_file_origin_witness:
  "\<exists>kvs kv. parseObjects (toyDeps []) toyAttrib = Inr kvs \<and> kv \<in> set kvs \<and>
     sfFileMode toyFile = fst (GetFilePermission kv 420)"
proof -
  obtain w' where "GetSecretsStoreObjectContent (toyDeps []) toyGlobals toyProvider toyAttrib None 420 toyWorld = (Inr [toyFile], w')"
    by (rule toy_run)
  from mount_file_origin[OF this, of toyFile] show ?thesis by auto
qed

theorem mount_plain_secret_witness:
  "fst (GetSecretsStoreObjectContent (toyDeps []) toyGlobals toyProvider toyAttrib None 420 toyWorld) =
   Inr [\<lparr>sfContent = ''YWJj'', sfPath = GetFileName (toyObject ''secret'' []),
         sfFileMode = fst (GetFilePermission (toyObject ''secret'' []) 420),
         sfUID = ''secret/'' @ ObjectName (toyObject ''secret'' []),
         sfVersion = SecretIDVersion (depSdk (toyDeps [])) ''v1''\<rparr>]"
proof -
  obtain mc w1 where st: "mountStages (toyDeps []) toyGlobals toyProvider toyAttrib None toyWorld mc w1 [toyObject ''secret'' []] toyClient"
    using toy_stages by blast
  show ?thesis
    by (rule mount_plain_secret[OF st _ _ _ toy_get]) (simp_all add: toyObject_def IsSyncingSingleVersion_def)
qed

theorem buildAuthConfig_complete_witness:
  "\<exists>c. buildAuthConfig (\<lambda>s. Inr [''api://AKSIdentityBinding'' \<mapsto> \<lparr>saTokenToken = ''tok'', saTokenExpirationTimestamp = 0\<rparr>])
      \<lparr>aciIdentityMode = IdentityModeAzureTokenProxy, aciUserAssignedIdentityID = [], aciWorkloadIdentityClientID = ''cid'',
       aciSaTokens = ''{}'', aciSecrets = None\<rparr> = Inr c \<and>
    cfgWorkloadIdentityClientID c \<noteq> [] \<and> cfgServiceAccountToken c \<noteq> []"
proof -
  let ?in = "\<lparr>aciIdentityMode = IdentityModeAzureTokenProxy, aciUserAssignedIdentityID = [], aciWorkloadIdentityClientID = ''cid'',
       aciSaTokens = ''{}'', aciSecrets = None\<rparr>"
  let ?u = "\<lambda>s. Inr [''api://AKSIdentityBinding'' \<mapsto> \<lparr>saTokenToken = ''tok'', saTokenExpirationTimestamp = 0\<rparr>]"
  obtain c where c: "buildAuthConfig ?u ?in = Inr c"
    by (simp add: buildAuthConfig_def ParseIdentityBindingToken_def parseTokenForAudience_def
        IdentityBindingTokenAudience_def NewConfig_def)
  from buildAuthConfig_complete[OF c] c show ?thesis by auto
qed

end
