(* ===== verification/Interleave.thy ===== *)
theory Interleave
  imports Provider
begin

text \<open>
  Mounts in flight at the same time. The gRPC server runs every request in its own goroutine, and
  a mount writes the process environment (\<open>setAzureEnvironmentFilePath\<close>) before it reads it
  (\<open>parseAzureEnvironment\<close>). A configuration is the shared world and the mounts in flight; a step
  is one of these two accesses by one of the mounts. The steps are those of \<open>buildMount\<close>, which
  is what a mount that runs alone does.
\<close>

section \<open>Steps\<close>

datatype mountPhase = Waiting | EnvSet | EnvFailed go_error | EnvRead "azureEnvironment result"

record flight =
  flAttrib :: params
  flPhase :: mountPhase

type_synonym 'v traffic = "'v world \<times> flight list"

inductive mstep ::
  "((string \<rightharpoonup> string) \<Rightarrow> string \<Rightarrow> azureEnvironment result) \<Rightarrow> provider \<Rightarrow> 'v traffic \<Rightarrow> 'v traffic \<Rightarrow> bool"
  for fromName p where
  mset: "i < length fs \<Longrightarrow> flPhase (fs ! i) = Waiting \<Longrightarrow>
     setAzureEnvironmentFilePath (GetCloudEnvFileName (flAttrib (fs ! i))) w = (r, w') \<Longrightarrow>
     ph = (case r of Inl e \<Rightarrow> EnvFailed e | Inr _ \<Rightarrow> EnvSet) \<Longrightarrow>
     mstep fromName p (w, fs) (w', fs[i := (fs ! i)\<lparr>flPhase := ph\<rparr>])"
| mread: "i < length fs \<Longrightarrow> flPhase (fs ! i) = EnvSet \<Longrightarrow>
     r = parseAzureEnvironment fromName p (environ w) (GetCloudName (flAttrib (fs ! i))) \<Longrightarrow>
     mstep fromName p (w, fs) (w, fs[i := (fs ! i)\<lparr>flPhase := EnvRead r\<rparr>])"

section \<open>Mounts that agree on the file\<close>

text \<open>
  The invariant when every mount that names a file names \<open>f\<close>: the environment is the initial one
  or has \<open>f\<close>; it has \<open>f\<close> once a mount that names it has passed its first step; and what such a
  mount has read, it has read under \<open>f\<close>.
\<close>

definition flightOk ::
  "((string \<rightharpoonup> string) \<Rightarrow> string \<Rightarrow> azureEnvironment result) \<Rightarrow> provider \<Rightarrow> (string \<rightharpoonup> string) \<Rightarrow> string \<Rightarrow>
   (string \<rightharpoonup> string) \<Rightarrow> flight \<Rightarrow> bool" where
  "flightOk fromName p env1 f env x \<longleftrightarrow>
     GetCloudEnvFileName (flAttrib x) \<in> {[], f} \<and>
     (GetCloudEnvFileName (flAttrib x) = f \<longrightarrow>
        flPhase x = Waiting \<or>
        env = env1 \<and>
        (\<forall>r. flPhase x = EnvRead r \<longrightarrow> r = parseAzureEnvironment fromName p env1 (GetCloudName (flAttrib x))))"

definition agreeInv ::
  "((string \<rightharpoonup> string) \<Rightarrow> string \<Rightarrow> azureEnvironment result) \<Rightarrow> provider \<Rightarrow> (string \<rightharpoonup> string) \<Rightarrow> string \<Rightarrow>
   'v traffic \<Rightarrow> bool" where
  "agreeInv fromName p env0 f t \<longleftrightarrow>
     (environ (fst t) = env0 \<or> environ (fst t) = env0(EnvironmentFilepathName \<mapsto> f)) \<and>
     (\<forall>x\<in>set (snd t). flightOk fromName p (env0(EnvironmentFilepathName \<mapsto> f)) f (environ (fst t)) x)"

lemma flightOk_mono:
  "flightOk fromName p env1 f env x \<Longrightarrow> env = env1 \<longrightarrow> env' = env1 \<Longrightarrow> flightOk fromName p env1 f env' x"
  by (auto simp: flightOk_def)

lemma agreeInv_update:
  assumes "agreeInv fromName p env0 f (w, fs)"
    and "environ w' = environ w \<or> environ w' = env0(EnvironmentFilepathName \<mapsto> f)"
    and "flightOk fromName p (env0(EnvironmentFilepathName \<mapsto> f)) f (environ w') y"
  shows "agreeInv fromName p env0 f (w', fs[i := y])"
proof -
  have "flightOk fromName p (env0(EnvironmentFilepathName \<mapsto> f)) f (environ w') x" if "x \<in> set (fs[i := y])" for x
  proof (cases "x = y")
    case False
    with that have "x \<in> set fs" using set_update_subset_insert by fastforce
    with assms(1) have "flightOk fromName p (env0(EnvironmentFilepathName \<mapsto> f)) f (environ w) x"
      by (simp add: agreeInv_def)
    then show ?thesis by (rule flightOk_mono) (use assms(2) in auto)
  qed (use assms(3) in simp)
  with assms(1,2) show ?thesis by (auto simp: agreeInv_def)
qed

lemma agreeInv_step:
  assumes "mstep fromName p t t'" "agreeInv fromName p env0 f t" "f \<noteq> []" "CHR 0x00 \<notin> set f"
  shows "agreeInv fromName p env0 f t'"
  using assms(1)
proof cases
  case (mset i fs w r w' ph)
  have inv: "agreeInv fromName p env0 f (w, fs)" using assms(2) mset(1) by simp
  then have x: "GetCloudEnvFileName (flAttrib (fs ! i)) \<in> {[], f}"
    and e: "environ w = env0 \<or> environ w = env0(EnvironmentFilepathName \<mapsto> f)"
    using mset(3) by (auto simp: agreeInv_def flightOk_def)
  from mset(5) x assms(3,4) e have r: "ph = EnvSet"
    and w': "environ w' = environ w \<or> environ w' = env0(EnvironmentFilepathName \<mapsto> f)"
    and own: "GetCloudEnvFileName (flAttrib (fs ! i)) = f \<Longrightarrow> environ w' = env0(EnvironmentFilepathName \<mapsto> f)"
    using mset(6) by (auto simp: setAzureEnvironmentFilePath_def Setenv_def split: if_splits)
  show ?thesis unfolding mset(2)
    by (rule agreeInv_update[OF inv w']) (use x own r in \<open>auto simp: flightOk_def\<close>)
next
  case (mread i fs r w)
  have inv: "agreeInv fromName p env0 f (w, fs)" using assms(2) mread(1) by simp
  then have "flightOk fromName p (env0(EnvironmentFilepathName \<mapsto> f)) f (environ w) (fs ! i)"
    using mread(3) by (auto simp: agreeInv_def)
  then show ?thesis unfolding mread(2)
    by (intro agreeInv_update[OF inv]) (use mread(4,5) in \<open>auto simp: flightOk_def\<close>)
qed

lemma agreeInv_reach:
  assumes "(mstep fromName p)\<^sup>*\<^sup>* t t'" "agreeInv fromName p env0 f t" "f \<noteq> []" "CHR 0x00 \<notin> set f"
  shows "agreeInv fromName p env0 f t'"
  using assms by (induction rule: rtranclp_induct) (auto intro: agreeInv_step)

section \<open>A mount alone\<close>

text \<open>The two steps of a mount, one right after the other, are the first half of \<open>buildMount\<close>.\<close>

lemma alone_steps:
  assumes "buildMount d p attrib secrets mode w = (Inr mc, w')"
  shows "(mstep (depEnvironmentFromName d) p)\<^sup>*\<^sup>* (w, [\<lparr>flAttrib = attrib, flPhase = Waiting\<rparr>])
     (w', [\<lparr>flAttrib = attrib, flPhase = EnvRead (Inr (mcAzureCloudEnvironment mc))\<rparr>])"
proof -
  obtain u w1 where s: "setAzureEnvironmentFilePath (GetCloudEnvFileName attrib) w = (Inr u, w1)"
    and e: "parseAzureEnvironment (depEnvironmentFromName d) p (environ w1) (GetCloudName attrib) = Inr (mcAzureCloudEnvironment mc)"
    and w1: "w' = w1"
    using assms by (auto simp: buildMount_def result_simps split: prod.splits)
  have "mstep (depEnvironmentFromName d) p (w, [\<lparr>flAttrib = attrib, flPhase = Waiting\<rparr>])
      (w1, [\<lparr>flAttrib = attrib, flPhase = EnvSet\<rparr>])"
    using mset[of 0 "[\<lparr>flAttrib = attrib, flPhase = Waiting\<rparr>]" w "Inr u" w1 EnvSet] s by simp
  moreover have "mstep (depEnvironmentFromName d) p (w1, [\<lparr>flAttrib = attrib, flPhase = EnvSet\<rparr>])
      (w1, [\<lparr>flAttrib = attrib, flPhase = EnvRead (Inr (mcAzureCloudEnvironment mc))\<rparr>])"
    using mread[of 0 "[\<lparr>flAttrib = attrib, flPhase = EnvSet\<rparr>]" _ "depEnvironmentFromName d" p w1] e by simp
  ultimately show ?thesis unfolding w1 by (meson converse_rtranclp_into_rtranclp rtranclp.rtrancl_refl)
qed

section \<open>Properties\<close>

text \<open>
  Property C16. Mounts in flight do not disturb each other as long as those that name a cloud
  environment file name the same one: in every interleaving, a mount that names the file and has
  read its cloud environment has read it with this file in the process environment.
\<close>

theorem interleaved_own_file:
  assumes "(mstep fromName p)\<^sup>*\<^sup>* (w0, fs0) (w, fs)"
    and "\<forall>x\<in>set fs0. flPhase x = Waiting \<and> GetCloudEnvFileName (flAttrib x) \<in> {[], f}"
    and "f \<noteq> []" "CHR 0x00 \<notin> set f"
    and "x \<in> set fs" "GetCloudEnvFileName (flAttrib x) = f" "flPhase x = EnvRead r"
  shows "r = parseAzureEnvironment fromName p ((environ w0)(''AZURE_ENVIRONMENT_FILEPATH'' \<mapsto> f)) (GetCloudName (flAttrib x))"
proof -
  have "agreeInv fromName p (environ w0) f (w0, fs0)" using assms(2) by (auto simp: agreeInv_def flightOk_def)
  from agreeInv_reach[OF assms(1) this assms(3,4)] assms(5-7) show ?thesis
    by (auto simp: agreeInv_def flightOk_def EnvironmentFilepathName_def)
qed

section \<open>Witnesses\<close>

definition fileEnvironment :: "(string \<rightharpoonup> string) \<Rightarrow> string \<Rightarrow> azureEnvironment result" where
  "fileEnvironment env name =
     (case env EnvironmentFilepathName of
        None \<Rightarrow> Inl (External ''no file'')
      | Some f \<Rightarrow> Inr ((defaultCloudEnvironment toyProvider)\<lparr>KeyVaultDNSSuffix := f\<rparr>))"

definition flying :: "string \<Rightarrow> mountPhase \<Rightarrow> flight" where
  "flying f ph = \<lparr>flAttrib = [CloudEnvFileNameParameter \<mapsto> f, CloudNameParameter \<mapsto> ''AzureStackCloud''], flPhase = ph\<rparr>"

lemma toy_files: "TrimSpace ''/a.json'' = ''/a.json''" "TrimSpace ''/b.json'' = ''/b.json''"
  "TrimSpace ''AzureStackCloud'' = ''AzureStackCloud''"
  by code_simp+

lemma flying_simps [simp]:
  "GetCloudEnvFileName (flAttrib (flying f ph)) = TrimSpace f" "flPhase (flying f ph) = ph"
  "GetCloudName (flAttrib (flying f ph)) = ''AzureStackCloud''" "(flying f ph)\<lparr>flPhase := ph'\<rparr> = flying f ph'"
  using toy_files by (simp_all add: flying_def GetCloudEnvFileName_def GetCloudName_def param_def
      CloudEnvFileNameParameter_def CloudNameParameter_def)

definition withFile :: "string \<Rightarrow> unit world" where
  "withFile f = toyWorld\<lparr>environ := [EnvironmentFilepathName \<mapsto> f]\<rparr>"

lemma flying_set:
  assumes "i < length fs" "fs ! i = flying f Waiting" "TrimSpace f = f" "f \<noteq> []" "CHR 0x00 \<notin> set f"
    and "w = toyWorld \<or> (\<exists>g. w = withFile g)"
  shows "mstep fileEnvironment toyProvider (w, fs) (withFile f, fs[i := flying f EnvSet])"
proof -
  have "setAzureEnvironmentFilePath (GetCloudEnvFileName (flAttrib (fs ! i))) w = (Inr (), withFile f)"
    using assms by (auto simp: setAzureEnvironmentFilePath_def Setenv_def withFile_def toyWorld_def)
  from mset[OF assms(1) _ this, of EnvSet] assms(2) show ?thesis by simp
qed

lemma flying_read:
  assumes "i < length fs" "fs ! i = flying f EnvSet"
  shows "mstep fileEnvironment toyProvider (withFile g, fs)
    (withFile g, fs[i := flying f (EnvRead (Inr ((defaultCloudEnvironment toyProvider)\<lparr>KeyVaultDNSSuffix := g\<rparr>)))])"
proof -
  have "parseAzureEnvironment fileEnvironment toyProvider (environ (withFile g)) (GetCloudName (flAttrib (fs ! i))) =
      Inr ((defaultCloudEnvironment toyProvider)\<lparr>KeyVaultDNSSuffix := g\<rparr>)"
    using assms(2) by (simp add: parseAzureEnvironment_def fileEnvironment_def withFile_def)
  from mread[OF assms(1) _ this[symmetric]] assms(2) show ?thesis by simp
qed

theorem interleaved_own_file_witness:
  "Inr ((defaultCloudEnvironment toyProvider)\<lparr>KeyVaultDNSSuffix := ''/a.json''\<rparr>) =
   parseAzureEnvironment fileEnvironment toyProvider [''AZURE_ENVIRONMENT_FILEPATH'' \<mapsto> ''/a.json''] ''AzureStackCloud''"
proof -
  let ?r = "Inr ((defaultCloudEnvironment toyProvider)\<lparr>KeyVaultDNSSuffix := ''/a.json''\<rparr>)"
  have "mstep fileEnvironment toyProvider (toyWorld, [flying ''/a.json'' Waiting]) (withFile ''/a.json'', [flying ''/a.json'' EnvSet])"
    using flying_set[of 0 "[flying ''/a.json'' Waiting]" "''/a.json''" toyWorld] toy_files by simp
  moreover have "mstep fileEnvironment toyProvider (withFile ''/a.json'', [flying ''/a.json'' EnvSet])
      (withFile ''/a.json'', [flying ''/a.json'' (EnvRead ?r)])"
    using flying_read[of 0 "[flying ''/a.json'' EnvSet]" "''/a.json''" "''/a.json''"] by simp
  ultimately have run: "(mstep fileEnvironment toyProvider)\<^sup>*\<^sup>* (toyWorld, [flying ''/a.json'' Waiting])
      (withFile ''/a.json'', [flying ''/a.json'' (EnvRead ?r)])" by (meson converse_rtranclp_into_rtranclp rtranclp.rtrancl_refl)
  from interleaved_own_file[OF run, of "''/a.json''" "flying ''/a.json'' (EnvRead ?r)" ?r] show ?thesis
    by (simp add: toy_files toyWorld_def)
qed

text \<open>
  Without the agreement the mounts do disturb each other: the first of two mounts reads its cloud
  environment from the file of the second.
\<close>

lemma interleaved_crosstalk:
  "(mstep fileEnvironment toyProvider)\<^sup>*\<^sup>* (toyWorld, [flying ''/a.json'' Waiting, flying ''/b.json'' Waiting])
     (withFile ''/b.json'',
      [flying ''/a.json'' (EnvRead (Inr ((defaultCloudEnvironment toyProvider)\<lparr>KeyVaultDNSSuffix := ''/b.json''\<rparr>))),
       flying ''/b.json'' EnvSet])"
proof -
  have "mstep fileEnvironment toyProvider (toyWorld, [flying ''/a.json'' Waiting, flying ''/b.json'' Waiting])
      (withFile ''/a.json'', [flying ''/a.json'' EnvSet, flying ''/b.json'' Waiting])"
    using flying_set[of 0 "[flying ''/a.json'' Waiting, flying ''/b.json'' Waiting]" "''/a.json''" toyWorld] toy_files by simp
  moreover have "mstep fileEnvironment toyProvider (withFile ''/a.json'', [flying ''/a.json'' EnvSet, flying ''/b.json'' Waiting])
      (withFile ''/b.json'', [flying ''/a.json'' EnvSet, flying ''/b.json'' EnvSet])"
    using flying_set[of 1 "[flying ''/a.json'' EnvSet, flying ''/b.json'' Waiting]" "''/b.json''" "withFile ''/a.json''"] toy_files by auto
  moreover have "mstep fileEnvironment toyProvider (withFile ''/b.json'', [flying ''/a.json'' EnvSet, flying ''/b.json'' EnvSet])
      (withFile ''/b.json'',
      [flying ''/a.json'' (EnvRead (Inr ((defaultCloudEnvironment toyProvider)\<lparr>KeyVaultDNSSuffix := ''/b.json''\<rparr>))),
       flying ''/b.json'' EnvSet])"
    using flying_read[of 0 "[flying ''/a.json'' EnvSet, flying ''/b.json'' EnvSet]" "''/a.json''" "''/b.json''"] by simp
  ultimately show ?thesis by (meson converse_rtranclp_into_rtranclp rtranclp.rtrancl_refl)
qed

end
