(* ===== verification/Utils.thy ===== *)
theory Utils
  imports Utf8 Auth
begin

text \<open>
  \<open>pkg/utils\<close>, \<open>pkg/metrics\<close> and \<open>pkg/version\<close>: the endpoint parser, redaction for logs,
  the umask wrapper, the gRPC interceptor, the attributes of a metrics record, the choice of the
  metrics backend and the user agent. Durations, logging and the metrics SDK are left out; a
  record is what it is recorded with.
\<close>

section \<open>Endpoints\<close>

definition errEndpoint :: "string \<Rightarrow> go_error" where
  "errEndpoint ep = Errorf ''invalid endpoint: %v'' [ep]"

text \<open>\<open>strings.SplitN\<close> with a limit of two; indexing its second element may be out of range.\<close>

definition ParseEndpoint :: "string \<Rightarrow> (string \<times> string) result" where
  "ParseEndpoint ep =
     (if prefix ''unix://'' (ToLower ep) \<or> prefix ''tcp://'' (ToLower ep)
      then (case Cut ''://'' ep of
          None \<Rightarrow> Inl (Panic ''index out of range'')
        | Some (proto, addr) \<Rightarrow> if addr \<noteq> [] then Inr (proto, addr) else Inl (errEndpoint ep))
      else Inl (errEndpoint ep))"

section \<open>Redaction\<close>

text \<open>The white space of the regular expression class, without the vertical tab.\<close>

definition regexpSpace :: "bytes \<Rightarrow> bool" where
  "regexpSpace r \<longleftrightarrow> r \<in> {[CHR 0x09], [CHR 0x0A], [CHR 0x0C], [CHR 0x0D], [CHR 0x20]}"

definition redactMatches :: "bytes list \<Rightarrow> bool" where
  "redactMatches rs \<longleftrightarrow> 8 \<le> length rs \<and>
     list_all (\<lambda>r. \<not> regexpSpace r) (take 4 rs) \<and> list_all (\<lambda>r. \<not> regexpSpace r) (drop (length rs - 4) rs)"

definition redactMark :: string where
  "redactMark = ''##### REDACTED #####''"

definition RedactSecureString :: "string \<Rightarrow> string" where
  "RedactSecureString sensitiveString =
     (let rs = runes sensitiveString in
      if redactMatches rs
      then concat (take 4 rs) @ redactMark @ concat (drop (length rs - 4) rs)
      else sensitiveString)"

section \<open>Umask\<close>

text \<open>The process's file mode creation mask: the kernel keeps the permission bits.\<close>

definition Umask :: "nat \<Rightarrow> nat \<Rightarrow> nat \<times> nat" where
  "Umask newMask current = (current, newMask mod 0x200)"

definition Umask_windows :: "nat \<Rightarrow> nat" where
  "Umask_windows newMask = 0"

section \<open>Metrics\<close>

type_synonym attributes = "(string \<times> string) list"

datatype metricRecord = KeyvaultRequest attributes | GrpcRequest attributes

definition commonAttributes :: "string \<Rightarrow> attributes" where
  "commonAttributes goos =
     [(''service.name'', ''csi-secrets-store-provider-azure''), (''provider'', ''azure''), (''os_type'', goos)]"

definition ReportKeyvaultRequest ::
  "string \<Rightarrow> string \<Rightarrow> string \<Rightarrow> string \<Rightarrow> metricRecord list \<Rightarrow> metricRecord list" where
  "ReportKeyvaultRequest goos objectType objectName err recs =
     recs @ [KeyvaultRequest (commonAttributes goos @
       [(''object_type'', objectType), (''object_name'', objectName), (''error'', err)])]"

definition ReportGRPCRequest ::
  "string \<Rightarrow> string \<Rightarrow> string \<Rightarrow> string \<Rightarrow> metricRecord list \<Rightarrow> metricRecord list" where
  "ReportGRPCRequest goos rpc code message recs =
     recs @ [GrpcRequest (commonAttributes goos @
       [(''grpc_method'', rpc), (''grpc_code'', code), (''grpc_message'', message)])]"

text \<open>
  \<open>NewStatsReporter\<close> makes the two instruments of the global meter provider and panics when one
  cannot be made; \<open>mkInstrument\<close> is the SDK's constructor.
\<close>

definition NewStatsReporter :: "(string \<Rightarrow> go_error option) \<Rightarrow> unit result" where
  "NewStatsReporter mkInstrument =
     (case mkInstrument ''keyvault_request'' of
        Some e \<Rightarrow> Inl (Panic ''keyvault_request'')
      | None \<Rightarrow>
          (case mkInstrument ''grpc_request'' of
             Some e \<Rightarrow> Inl (Panic ''grpc_request'')
           | None \<Rightarrow> Inr ()))"

text \<open>What the exporter sets up: the meter provider, the handler of the default mux and a server.\<close>

datatype exporterEffect = SetMeterProvider | HandleMetrics string | ListenAndServe string

definition initPrometheusExporter :: "unit result \<Rightarrow> int \<Rightarrow> unit result \<times> exporterEffect list" where
  "initPrometheusExporter newExporter port =
     (case newExporter of
        Inl e \<Rightarrow> (Inl e, [])
      | Inr _ \<Rightarrow> (Inr (), [SetMeterProvider, HandleMetrics ''/metrics'', ListenAndServe ('':'' @ showInt port)]))"

definition InitMetricsExporter :: "unit result \<Rightarrow> string \<Rightarrow> int \<Rightarrow> unit result \<times> exporterEffect list" where
  "InitMetricsExporter newExporter metricsBackend prometheusPort =
     (let mb = ToLower metricsBackend in
      if mb = ''prometheus'' then initPrometheusExporter newExporter prometheusPort
      else (Inl (Errorf ''unsupported metrics backend %v'' [metricsBackend]), []))"

section \<open>The interceptor\<close>

text \<open>
  A handler is a computation over the server's state; \<open>statusOf\<close> is gRPC's \<open>status.FromError\<close>,
  which gives the code and message of an error or of nil. The report is not deferred: a panic of
  the handler passes without one.
\<close>

definition LogInterceptor ::
  "(string \<Rightarrow> go_error option) \<Rightarrow> string \<Rightarrow> (go_error option \<Rightarrow> string \<times> string) \<Rightarrow> string \<Rightarrow>
   ('s, 'a) io \<Rightarrow> ('s \<times> metricRecord list, 'a) io" where
  "LogInterceptor mkInstrument goos statusOf fullMethod handler st =
     (case NewStatsReporter mkInstrument of
        Inl e \<Rightarrow> (Inl e, st)
      | Inr _ \<Rightarrow>
          (let (s, recs) = st; (r, s') = handler s in
           if (case r of Inl e \<Rightarrow> is_panic e | Inr _ \<Rightarrow> False) then (r, (s', recs))
           else
             (let (code, message) = statusOf (case r of Inl e \<Rightarrow> Some e | Inr _ \<Rightarrow> None)
              in (r, (s', ReportGRPCRequest goos fullMethod code message recs)))))"

section \<open>Version\<close>

record buildInfo =
  BuildDate :: string
  BuildVersion :: string
  Vcs :: string
  GOOS :: string
  GOARCH :: string

definition GetUserAgent :: "buildInfo \<Rightarrow> string \<Rightarrow> string" where
  "GetUserAgent b customUserAgent =
     (let base = ''csi-secrets-store/'' @ BuildVersion b @ '' ('' @ GOOS b @ ''/'' @ GOARCH b @ '') '' @
                 Vcs b @ ''/'' @ BuildDate b
      in if customUserAgent \<noteq> [] then base @ '' '' @ customUserAgent else base)"

section \<open>Facts on case mapping\<close>

text \<open>A table of case mappings whose entries start with a non-ASCII byte and give a letter.\<close>

definition letterTable :: "(string \<times> char) list \<Rightarrow> bool" where
  "letterTable tbl \<longleftrightarrow> (\<forall>(r, d)\<in>set tbl. (\<forall>c\<in>set r. 0x80 \<le> (of_char c :: nat)) \<and> 97 \<le> (of_char d :: nat))"

lemma letterTable_lowerTable: "letterTable lowerTable"
  by (simp add: letterTable_def lowerTable_def)

lemma lowerChar_punct: "(of_char d :: nat) < 65 \<Longrightarrow> lowerChar c = d \<longleftrightarrow> c = d"
  by (auto simp: lowerChar_def Let_def split: if_splits)

lemma foldRunes_step:
  "s \<noteq> [] \<Longrightarrow> foldRunes tbl s =
     (case find (\<lambda>(r, d). r \<noteq> [] \<and> prefix r s) tbl of
        None \<Rightarrow> lowerChar (hd s) # foldRunes tbl (tl s)
      | Some (r, d) \<Rightarrow> d # foldRunes tbl (drop (length r) s))"
  by (cases s) (auto split: option.splits)

text \<open>One step of the mapping takes a non-empty piece off the front.\<close>

lemma foldRunes_uncons:
  assumes "letterTable tbl" "foldRunes tbl s = x # xs"
  obtains r rest where "s = r @ rest" "r \<noteq> []" "foldRunes tbl rest = xs"
    "\<And>u. prefix u rest \<Longrightarrow> foldRunes tbl (r @ u) = x # foldRunes tbl u"
    "\<And>c. (of_char c :: nat) < 65 \<Longrightarrow> c \<in> set r \<longleftrightarrow> r = [c] \<and> x = c"
    "\<And>c. (of_char c :: nat) < 65 \<Longrightarrow> x = c \<Longrightarrow> r = [c]"
proof (cases s)
  case Nil
  with assms show ?thesis by simp
next
  case (Cons a s')
  let ?P = "\<lambda>s (r, d). r \<noteq> [] \<and> prefix r s"
  show ?thesis
  proof (cases "find (?P (a # s')) tbl")
    case None
    with assms(2) Cons have x: "x = lowerChar a" "xs = foldRunes tbl s'" by auto
    have "find (?P (a # u)) tbl = None" if "prefix u s'" for u
      using None that by (auto simp: find_None_iff) (meson Cons_prefix_Cons prefix_order.trans)
    then have "foldRunes tbl ([a] @ u) = x # foldRunes tbl u" if "prefix u s'" for u
      using that x(1) by simp
    then show ?thesis using that[of "[a]" s'] Cons x lowerChar_punct by auto
  next
    case (Some rd)
    obtain r d where rd: "rd = (r, d)" by (cases rd)
    with Some obtain i where i: "i < length tbl" "tbl ! i = (r, d)" "r \<noteq> []" "prefix r (a # s')"
      "\<And>j. j < i \<Longrightarrow> \<not> ?P (a # s') (tbl ! j)" by (auto simp: find_Some_iff)
    then have r: "(r, d) \<in> set tbl" "r \<noteq> []" "prefix r (a # s')" using nth_mem by metis+
    then obtain rest where rest: "a # s' = r @ rest" by (auto simp: prefix_def)
    from assms(2) Cons Some rd have x: "x = d" "xs = foldRunes tbl (drop (length r) (a # s'))" by auto
    have big: "\<forall>c\<in>set r. 0x80 \<le> (of_char c :: nat)" "97 \<le> (of_char d :: nat)"
      using assms(1) r(1) by (auto simp: letterTable_def)
    have step: "foldRunes tbl (r @ u) = x # foldRunes tbl u" if u: "prefix u rest" for u
    proof -
      have pre: "prefix (r @ u) (a # s')" using u rest by simp
      have "\<not> ?P (r @ u) (tbl ! j)" if "j < i" for j
        using i(5)[OF that] prefix_order.trans[OF _ pre] by (cases "tbl ! j") auto
      then have "find (?P (r @ u)) tbl = Some (r, d)"
        unfolding find_Some_iff using i(1-3) by (intro exI[of _ i]) auto
      then show ?thesis using x(1) r(2) foldRunes_step[of "r @ u" tbl] by simp
    qed
    have small: "c \<notin> set r" "d \<noteq> c" if "(of_char c :: nat) < 65" for c using big that by force+
    show ?thesis
      by (rule that[of r rest]) (use Cons rest r(2) x step small in auto)
  qed
qed

text \<open>
  Punctuation is mapped from and to itself only: text whose lower case starts with \<open>p\<close> followed by
  punctuation starts with text whose lower case is \<open>p\<close> followed by the same punctuation.
\<close>

lemma foldRunes_punct_prefix:
  assumes "letterTable tbl" "\<And>c. c \<in> set sep \<Longrightarrow> (of_char c :: nat) < 65" "prefix sep (foldRunes tbl s)"
  shows "prefix sep s"
  using assms(2,3)
proof (induction sep arbitrary: s)
  case (Cons c sep)
  then obtain xs where f: "foldRunes tbl s = c # xs" "prefix sep xs" by (cases "foldRunes tbl s") auto
  from foldRunes_uncons[OF assms(1) f(1)] obtain r rest where r: "s = r @ rest" "foldRunes tbl rest = xs"
    "r = [c]" using Cons.prems(1) by (metis list.set_intros(1))
  with Cons.IH[of rest] Cons.prems(1) f(2) show ?case by simp
qed simp

lemma foldRunes_punct:
  assumes tbl: "letterTable tbl" and sep: "\<And>c. c \<in> set sep \<Longrightarrow> (of_char c :: nat) < 65"
    and "prefix (p @ sep) (foldRunes tbl s)"
  shows "\<exists>a b. s = a @ sep @ b \<and> foldRunes tbl a = p \<and>
    (\<forall>c. (of_char c :: nat) < 65 \<longrightarrow> c \<in> set a \<longrightarrow> c \<in> set p)"
  using assms(3)
proof (induction p arbitrary: s)
  case Nil
  with foldRunes_punct_prefix[OF tbl sep] have "prefix sep s" by simp
  then obtain b where "s = sep @ b" by (auto simp: prefix_def)
  then show ?case by (intro exI[of _ "[]"] exI[of _ b]) simp
next
  case (Cons x p)
  then obtain xs where f: "foldRunes tbl s = x # xs" "prefix (p @ sep) xs" by (cases "foldRunes tbl s") auto
  show ?case
  proof (rule foldRunes_uncons[OF tbl f(1)], goal_cases)
    case (1 r rest)
    from Cons.IH[of rest] 1(3) f(2) obtain a b where ab: "rest = a @ sep @ b" "foldRunes tbl a = p"
      "\<forall>c. (of_char c :: nat) < 65 \<longrightarrow> c \<in> set a \<longrightarrow> c \<in> set p" by auto
    have "prefix a rest" using ab(1) by simp
    from 1(4)[OF this] 1(1,5) ab show ?case by (intro exI[of _ "r @ a"] exI[of _ b]) auto
  qed
qed

lemma prefix_append_punct:
  assumes "\<forall>d\<in>set r. 0x80 \<le> (of_char d :: nat)" "(of_char c :: nat) < 65"
  shows "prefix r (a @ c # b) \<longleftrightarrow> prefix r a"
proof
  assume "prefix r (a @ c # b)"
  then consider "prefix r a" | us where "r = a @ us" "prefix us (c # b)" by (auto simp: prefix_append)
  then show "prefix r a"
  proof cases
    case 2
    then show ?thesis using assms by (cases us) auto
  qed
qed (rule prefix_prefix)

lemma foldRunes_append:
  assumes tbl: "letterTable tbl" and c: "(of_char c :: nat) < 65"
  shows "foldRunes tbl (a @ c # b) = foldRunes tbl a @ foldRunes tbl (c # b)"
proof (induction "length a" arbitrary: a rule: less_induct)
  case less
  show ?case
  proof (cases a)
    case (Cons x a')
    let ?P = "\<lambda>s (r, d). r \<noteq> [] \<and> prefix r s"
    have eq: "find (?P (a @ c # b)) tbl = find (?P a) tbl"
      by (rule find_cong) (use prefix_append_punct[OF _ c, of _ a b] tbl in \<open>auto simp: letterTable_def\<close>)
    show ?thesis
    proof (cases "find (?P a) tbl")
      case None
      with eq Cons less.hyps[of a'] show ?thesis
        using foldRunes_step[of a tbl] foldRunes_step[of "a @ c # b" tbl] by simp
    next
      case (Some rd)
      obtain r d where rd: "rd = (r, d)" by (cases rd)
      with Some have r: "r \<noteq> []" "prefix r a" by (auto simp: find_Some_iff)
      have "length (drop (length r) a) < length a" using r Cons by simp
      from less.hyps[OF this] have IH: "foldRunes tbl (drop (length r) (a @ c # b)) =
          foldRunes tbl (drop (length r) a) @ foldRunes tbl (c # b)"
        using prefix_length_le[OF r(2)] by simp
      have ne: "a \<noteq> []" "a @ c # b \<noteq> []" using Cons by auto
      show ?thesis unfolding foldRunes_step[OF ne(1)] foldRunes_step[OF ne(2)] eq Some rd option.case prod.case IH
        by simp
    qed
  qed simp
qed

section \<open>Properties\<close>

text \<open>
  An endpoint is accepted exactly when it is a scheme, a separator and a non-empty
  address, where the lower case of the scheme is unix or tcp; the parts are returned as written,
  and no endpoint makes the parser panic.
\<close>

lemma ParseEndpoint_iff:
  "ParseEndpoint ep =
     (case Cut ''://'' ep of
        None \<Rightarrow> Inl (Errorf ''invalid endpoint: %v'' [ep])
      | Some (proto, addr) \<Rightarrow>
          if ToLower proto \<in> {''unix'', ''tcp''} \<and> addr \<noteq> [] then Inr (proto, addr)
          else Inl (Errorf ''invalid endpoint: %v'' [ep]))"
proof -
  have sep: "(of_char c :: nat) < 65" if "c \<in> set ''://''" for c using that by auto
  have to: "\<exists>a b. Cut ''://'' ep = Some (a, b) \<and> ToLower a = p"
    if "prefix (p @ ''://'') (ToLower ep)" "CHR ''/'' \<notin> set p" for p
  proof -
    from foldRunes_punct[OF letterTable_lowerTable sep that(1)[unfolded ToLower_def]] obtain a b
      where ab: "ep = a @ ''://'' @ b" "foldRunes lowerTable a = p" "CHR ''/'' \<in> set a \<longrightarrow> CHR ''/'' \<in> set p"
      by fastforce
    then have "Cut ''://'' ep = Some (a, b)" using Cut_first[of "CHR ''/''" a "CHR '':''" "''/''" b] that(2) by simp
    with ab(2) show ?thesis by (simp add: ToLower_def)
  qed
  have fro: "prefix (ToLower a @ ''://'') (ToLower ep)" if "Cut ''://'' ep = Some (a, b)" for a b
  proof -
    have "ep = a @ CHR '':'' # ''//'' @ b" using Cut_Some[OF that] by simp
    moreover have "foldRunes lowerTable (''://'' @ b) = ''://'' @ foldRunes lowerTable b"
      using foldRunes_append[OF letterTable_lowerTable, of "CHR ''/''" "'':''" "''/'' @ b"]
      by (simp add: lowerTable_def lowerChar_def)
    ultimately show ?thesis
      using foldRunes_append[OF letterTable_lowerTable, of "CHR '':''" a "''//'' @ b"] by (simp add: ToLower_def)
  qed
  show ?thesis
  proof (cases "Cut ''://'' ep")
    case None
    then show ?thesis using to[of "''unix''"] to[of "''tcp''"] by (auto simp: ParseEndpoint_def errEndpoint_def)
  next
    case (Some ab)
    obtain a b where ab: "ab = (a, b)" by (cases ab)
    have "prefix ''unix://'' (ToLower ep) \<longleftrightarrow> ToLower a = ''unix''" "prefix ''tcp://'' (ToLower ep) \<longleftrightarrow> ToLower a = ''tcp''"
      using to[of "''unix''"] to[of "''tcp''"] fro[of a b] Some ab by auto
    with Some ab show ?thesis by (auto simp: ParseEndpoint_def errEndpoint_def)
  qed
qed

text \<open>
  What redaction shows of a secret that it matches is its first four and last four
  characters and nothing else: two such secrets that agree on these are redacted to the same
  text, however they differ in length and content.
\<close>

lemma RedactSecureString_hides:
  assumes "redactMatches (runes s)" "redactMatches (runes t)"
    and "take 4 (runes s) = take 4 (runes t)"
    and "drop (length (runes s) - 4) (runes s) = drop (length (runes t) - 4) (runes t)"
  shows "RedactSecureString s = RedactSecureString t"
  using assms by (simp add: RedactSecureString_def Let_def)

lemma RedactSecureString_hides_witness:
  "RedactSecureString ''aaaa-secret-bbbb'' = RedactSecureString ''aaaabbbb''"
  by (rule RedactSecureString_hides; code_simp)

text \<open>A secret of fewer than eight characters is shown as it is.\<close>

lemma RedactSecureString_short: "length (runes s) < 8 \<Longrightarrow> RedactSecureString s = s"
  by (simp add: RedactSecureString_def redactMatches_def)

text \<open>
  The interceptor is transparent: with working instruments the response, the error
  and the effects on the server are those of the handler, and exactly one record is added, which
  carries the method and the status of the outcome; only a panic of the handler goes unrecorded.
\<close>

lemma LogInterceptor_transparent:
  "LogInterceptor (\<lambda>_. None) goos statusOf rpc handler (s, recs) =
     (fst (handler s), snd (handler s),
      recs @ (if \<exists>p. fst (handler s) = Inl (Panic p) then []
              else [GrpcRequest
                [(''service.name'', ''csi-secrets-store-provider-azure''), (''provider'', ''azure''), (''os_type'', goos),
                 (''grpc_method'', rpc),
                 (''grpc_code'', fst (statusOf (case fst (handler s) of Inl e \<Rightarrow> Some e | Inr _ \<Rightarrow> None))),
                 (''grpc_message'', snd (statusOf (case fst (handler s) of Inl e \<Rightarrow> Some e | Inr _ \<Rightarrow> None)))]]))"
proof -
  obtain r s' where h: "handler s = (r, s')" by fastforce
  have p: "(case r of Inl e \<Rightarrow> is_panic e | Inr _ \<Rightarrow> False) \<longleftrightarrow> (\<exists>p. r = Inl (Panic p))"
  proof (cases r)
    case (Inl e)
    then show ?thesis by (cases e) auto
  qed simp
  show ?thesis unfolding LogInterceptor_def h fst_conv snd_conv Let_def prod.case p
    by (simp add: NewStatsReporter_def ReportGRPCRequest_def commonAttributes_def case_prod_beta)
qed

end
