(* ===== verification/Server.thy ===== *)
theory Server
  imports Provider Utils Json
begin

text \<open>
  \<open>pkg/server\<close>: the gRPC service in front of the provider and the HTTP health check. \<open>Mount\<close>
  decodes the three JSON texts of the request, runs the mount operation and turns its files into
  the response. A handler returns a response and an error, as in Go; a panic is the left result.
  The locale \<open>rpc_service\<close> is the contract a handler keeps towards the interceptor of
  \<open>pkg/utils\<close> that wraps it, and \<open>served\<close> is a run of the server over any sequence of requests.
\<close>

section \<open>Messages\<close>

record mountRequest =
  reqAttributes :: string
  reqSecrets :: string
  reqPermission :: string

record objectVersion =
  ovId :: string
  ovVersion :: string

record responseFile =
  rfPath :: string
  rfContents :: bytes
  rfMode :: int32

record mountResponse =
  respObjectVersion :: "objectVersion list"
  respFiles :: "responseFile list"

record versionResponse =
  vrVersion :: string
  vrRuntimeVersion :: string
  vrRuntimeName :: string

datatype servingStatus = UNKNOWN | SERVING | NOT_SERVING | SERVICE_UNKNOWN

section \<open>The service\<close>

record csiDriverProviderServer =
  srvProvider :: provider

definition New :: "bool \<Rightarrow> bool \<Rightarrow> azureEnvironment \<Rightarrow> csiDriverProviderServer" where
  "New pemChain separateFiles cloudEnv = \<lparr>srvProvider = NewProvider pemChain separateFiles cloudEnv\<rparr>"

definition emptyResponse :: mountResponse where
  "emptyResponse = \<lparr>respObjectVersion = [], respFiles = []\<rparr>"

text \<open>
  An early return: \<open>return &v1alpha1.MountResponse{}, fmt.Errorf(fmt, err)\<close>; a panic is not an
  error value and unwinds.
\<close>

definition mountFails :: "string \<Rightarrow> go_error \<Rightarrow> (mountResponse \<times> go_error option) result" where
  "mountFails fmt e = (if is_panic e then Inl e else Inr (emptyResponse, Some (wrapf fmt [] e)))"

fun responseLoop :: "objectVersion list \<Rightarrow> responseFile list \<Rightarrow> secretFile list \<Rightarrow> objectVersion list \<times> responseFile list" where
  "responseLoop ov f [] = (ov, f)"
| "responseLoop ov f (file # files) =
     responseLoop (ov @ [\<lparr>ovId = sfUID file, ovVersion = sfVersion file\<rparr>])
       (f @ [\<lparr>rfPath = sfPath file, rfContents = sfContent file, rfMode = sfFileMode file\<rparr>]) files"

text \<open>
  The parameters of a mount are only looked up, so they are a map, and the nil map looks up like
  the empty one; the secrets are ranged over, in an order that \<open>rangeOrder\<close> chooses.
\<close>

definition attribMap :: "(string \<times> string) list option \<Rightarrow> params" where
  "attribMap kvs = (case kvs of None \<Rightarrow> Map.empty | Some l \<Rightarrow> map_of l)"

definition Mount ::
  "('v, 't, 'c, 'h, 'k) deps \<Rightarrow> 't authGlobals \<Rightarrow> ((string \<times> string) list \<Rightarrow> (string \<times> string) list) \<Rightarrow>
   csiDriverProviderServer \<Rightarrow> mountRequest \<Rightarrow> ('v world, mountResponse \<times> go_error option) io" where
  "Mount d g rangeOrder s req w =
     (case unmarshalStringMap (reqAttributes req) of
        Inl e \<Rightarrow> (mountFails ''failed to unmarshal attributes, error: %w'' e, w)
      | Inr attrib \<Rightarrow>
     (case unmarshalStringMap (reqSecrets req) of
        Inl e \<Rightarrow> (mountFails ''failed to unmarshal secrets, error: %w'' e, w)
      | Inr secret \<Rightarrow>
     (case unmarshalFileMode (reqPermission req) of
        Inl e \<Rightarrow> (mountFails ''failed to unmarshal file permission, error: %w'' e, w)
      | Inr defaultFilePermission \<Rightarrow>
     (case GetSecretsStoreObjectContent d g (srvProvider s) (attribMap attrib) (map_option rangeOrder secret)
             defaultFilePermission w of
        (Inl e, w') \<Rightarrow> (mountFails ''failed to mount objects, error: %w'' e, w')
      | (Inr files, w') \<Rightarrow>
          (let (ov, f) = responseLoop [] [] files in
           (Inr (\<lparr>respObjectVersion = ov, respFiles = f\<rparr>, None), w'))))))"

definition Version :: "buildInfo \<Rightarrow> versionResponse \<times> go_error option" where
  "Version b =
     (\<lparr>vrVersion = ''v1alpha1'', vrRuntimeVersion = BuildVersion b,
       vrRuntimeName = ''secrets-store-csi-driver-provider-azure''\<rparr>, None)"

definition Check :: "servingStatus \<times> go_error option" where
  "Check = (SERVING, None)"

text \<open>\<open>status.Error(codes.Unimplemented, msg)\<close> as its text.\<close>

definition unimplemented :: "string \<Rightarrow> go_error" where
  "unimplemented msg = External (''rpc error: code = Unimplemented desc = '' @ msg)"

definition List :: "unit option \<times> go_error option" where
  "List = (None, Some (unimplemented ''List is not supported''))"

definition Watch :: "go_error option" where
  "Watch = Some (unimplemented ''Watch is not supported'')"

section \<open>The health check\<close>

record healthZ =
  hzHost :: string
  hzEscapedPath :: string
  UnixSocketPath :: string
  RPCTimeout :: int

fun errorsIs :: "go_error \<Rightarrow> go_error \<Rightarrow> bool" where
  "errorsIs (Wrapf f a e) target = (Wrapf f a e = target \<or> errorsIs e target)"
| "errorsIs e target = (e = target)"

definition ErrServerClosed :: go_error where
  "ErrServerClosed = External ''http: Server closed''"

datatype serveOutcome = Returns | Exits int

text \<open>The handler registered, the address listened on, and how \<open>Serve\<close> ends.\<close>

definition Serve :: "healthZ \<Rightarrow> (string \<Rightarrow> go_error option) \<Rightarrow> (string \<times> string) \<times> serveOutcome" where
  "Serve h listenAndServe =
     ((hzEscapedPath h, hzHost h),
      (case listenAndServe (hzHost h) of
         None \<Rightarrow> Returns
       | Some err \<Rightarrow> if errorsIs err ErrServerClosed then Exits 1 else Returns))"

text \<open>\<open>grpc.NewClient\<close> gets a target and a dialer, which is the network and address it dials.\<close>

definition dialUnixSocket ::
  "(string \<Rightarrow> string \<times> string \<Rightarrow> 'n result) \<Rightarrow> healthZ \<Rightarrow> 'n result" where
  "dialUnixSocket newClient h = newClient (''passthrough:'' @ UnixSocketPath h) (''unix'', UnixSocketPath h)"

definition checkRPC :: "('n \<Rightarrow> int \<Rightarrow> servingStatus option result) \<Rightarrow> int \<Rightarrow> 'n \<Rightarrow> unit result" where
  "checkRPC check timeout client =
     rbind (check client timeout) (\<lambda>v.
       if v \<noteq> Some SERVING then Inl (Errorf ''expected health check response serving'' []) else Inr ())"

datatype httpReply = HttpError go_error int | HttpReply int string

text \<open>The reply, and the connections that are closed before the handler returns.\<close>

definition ServeHTTP ::
  "(string \<Rightarrow> string \<times> string \<Rightarrow> 'n result) \<Rightarrow> ('n \<Rightarrow> int \<Rightarrow> servingStatus option result) \<Rightarrow> healthZ \<Rightarrow>
   httpReply \<times> 'n list" where
  "ServeHTTP newClient check h =
     (case dialUnixSocket newClient h of
        Inl e \<Rightarrow> (HttpError e 503, [])
      | Inr conn \<Rightarrow>
          (case checkRPC check (RPCTimeout h) conn of
             Inl e \<Rightarrow> (HttpError e 503, [conn])
           | Inr _ \<Rightarrow> (HttpReply 200 ''ok'', [conn])))"

section \<open>A run of the server\<close>

text \<open>
  The unary calls, a mount with the order in which its secrets are ranged over. What a client gets
  is the response, or the error when there is one.
\<close>

datatype rpc =
    RpcMount mountRequest "(string \<times> string) list \<Rightarrow> (string \<times> string) list"
  | RpcVersion
  | RpcCheck
  | RpcList

datatype rpcResponse = MountReply mountResponse | VersionReply versionResponse | CheckReply servingStatus | ListReply

definition clientView :: "'a \<times> go_error option \<Rightarrow> 'a result" where
  "clientView re = (case snd re of None \<Rightarrow> Inr (fst re) | Some e \<Rightarrow> Inl e)"

fun handle ::
  "('v, 't, 'c, 'h, 'k) deps \<Rightarrow> 't authGlobals \<Rightarrow> csiDriverProviderServer \<Rightarrow> buildInfo \<Rightarrow> rpc \<Rightarrow>
   ('v world, rpcResponse) io" where
  "handle d g s b (RpcMount req rangeOrder) w =
     (case Mount d g rangeOrder s req w of
        (r, w') \<Rightarrow> (rbind r (\<lambda>re. map_sum id MountReply (clientView re)), w'))"
| "handle d g s b RpcVersion w = (map_sum id VersionReply (clientView (Version b)), w)"
| "handle d g s b RpcCheck w = (map_sum id CheckReply (clientView Check), w)"
| "handle d g s b RpcList w = (map_sum id (\<lambda>_. ListReply) (clientView List), w)"

text \<open>
  A run: the requests answered so far with what the client got. Between requests the vault may
  change; a panic ends the process, so that no request follows it.
\<close>

record ('q, 's, 'a) service =
  svcHandler :: "'q \<Rightarrow> ('s, 'a) io"
  svcFullMethod :: "'q \<Rightarrow> string"
  svcMkInstrument :: "string \<Rightarrow> go_error option"
  svcGoos :: string
  svcStatusOf :: "go_error option \<Rightarrow> string \<times> string"

definition intercepted :: "('q, 's, 'a) service \<Rightarrow> 'q \<Rightarrow> ('s \<times> metricRecord list, 'a) io" where
  "intercepted svc q =
     LogInterceptor (svcMkInstrument svc) (svcGoos svc) (svcStatusOf svc) (svcFullMethod svc q) (svcHandler svc q)"

inductive served ::
  "('q, 'v world, 'a) service \<Rightarrow> 'v world \<times> metricRecord list \<Rightarrow> ('q \<times> 'a result) list \<Rightarrow>
   'v world \<times> metricRecord list \<Rightarrow> bool" for svc s where
  served_start: "served svc s [] s"
| served_request: "served svc s tr s' \<Longrightarrow> intercepted svc q s' = (r, s'') \<Longrightarrow>
     (case r of Inl e \<Rightarrow> \<not> is_panic e | Inr _ \<Rightarrow> True) \<Longrightarrow> served svc s (tr @ [(q, r)]) s''"
| served_vault: "served svc s tr (w, recs) \<Longrightarrow> served svc s tr (w\<lparr>vault := v\<rparr>, recs)"

text \<open>The record of one answered request.\<close>

definition requestRecord :: "('q, 's, 'a) service \<Rightarrow> 'q \<times> 'a result \<Rightarrow> metricRecord" where
  "requestRecord svc qr =
     (let (code, message) = svcStatusOf svc (case snd qr of Inl e \<Rightarrow> Some e | Inr _ \<Rightarrow> None) in
      GrpcRequest (commonAttributes (svcGoos svc) @
        [(''grpc_method'', svcFullMethod svc (fst qr)), (''grpc_code'', code), (''grpc_message'', message)]))"

lemma intercepted_step:
  assumes "intercepted svc q s = (r, s')" "case r of Inl e \<Rightarrow> \<not> is_panic e | Inr _ \<Rightarrow> True"
  shows "svcHandler svc q (fst s) = (r, fst s')" "snd s' = snd s @ [requestRecord svc (q, r)]"
proof -
  obtain w recs where s: "s = (w, recs)" by (cases s)
  have "svcHandler svc q (fst s) = (r, fst s') \<and> snd s' = snd s @ [requestRecord svc (q, r)]"
  proof (cases "NewStatsReporter (svcMkInstrument svc)")
    case (Inl e)
    then have "is_panic e" by (auto simp: NewStatsReporter_def split: option.splits)
    with assms Inl show ?thesis by (auto simp: intercepted_def LogInterceptor_def)
  next
    case (Inr u)
    obtain r1 w1 where h: "svcHandler svc q w = (r1, w1)" by fastforce
    have "\<not> (case r1 of Inl e \<Rightarrow> is_panic e | Inr _ \<Rightarrow> False)"
      using assms Inr h s by (auto simp: intercepted_def LogInterceptor_def Let_def split: if_splits sum.splits prod.splits)
    with assms(1) Inr h s show ?thesis
      by (auto simp: intercepted_def LogInterceptor_def Let_def ReportGRPCRequest_def requestRecord_def split: prod.splits)
  qed
  then show "svcHandler svc q (fst s) = (r, fst s')" "snd s' = snd s @ [requestRecord svc (q, r)]" by blast+
qed

text \<open>
  The contract of a handler: \<open>R\<close> relates the states around a request and does not see the vault,
  \<open>good\<close> holds of every response it gives.
\<close>

locale rpc_contract =
  fixes svc :: "('q, 'v world, 'a) service"
    and R :: "'v world \<Rightarrow> 'v world \<Rightarrow> bool"
    and good :: "'q \<Rightarrow> 'a \<Rightarrow> bool"
  assumes handler_R: "svcHandler svc q w = (r, w') \<Longrightarrow> R w w'"
    and handler_good: "svcHandler svc q w = (Inr x, w') \<Longrightarrow> good q x"
    and R_refl: "R w w"
    and R_trans: "R w w1 \<Longrightarrow> R w1 w2 \<Longrightarrow> R w w2"
    and R_vault: "R w (w\<lparr>vault := v\<rparr>)"
begin

lemma served_R: "served svc s tr s' \<Longrightarrow> R (fst s) (fst s')"
proof (induction rule: served.induct)
  case (served_request tr s' q r s'')
  with handler_R[OF intercepted_step(1)] show ?case by (blast intro: R_trans)
qed (auto intro: R_refl R_trans R_vault)

lemma served_good: "served svc s tr s' \<Longrightarrow> (q, Inr x) \<in> set tr \<Longrightarrow> good q x"
proof (induction rule: served.induct)
  case (served_request tr s' q' r s'')
  with intercepted_step(1)[OF served_request.hyps(2,3)] handler_good show ?case by auto
qed auto

end

lemma served_records: "served svc s tr s' \<Longrightarrow> snd s' = snd s @ map (requestRecord svc) tr"
proof (induction rule: served.induct)
  case (served_request tr s' q r s'')
  with intercepted_step(2)[OF served_request.hyps(2,3)] show ?case by simp
qed auto

section \<open>The provider behind the contract\<close>

definition versionOf :: "secretFile \<Rightarrow> objectVersion" where
  "versionOf file = \<lparr>ovId = sfUID file, ovVersion = sfVersion file\<rparr>"

definition responseFileOf :: "secretFile \<Rightarrow> responseFile" where
  "responseFileOf file = \<lparr>rfPath = sfPath file, rfContents = sfContent file, rfMode = sfFileMode file\<rparr>"

lemma responseLoop_map:
  "responseLoop ov f files = (ov @ map versionOf files, f @ map responseFileOf files)"
  by (induction ov f files rule: responseLoop.induct) (simp_all add: versionOf_def responseFileOf_def)

text \<open>Either a text of the request was refused, or the mount operation ran and decided the outcome.\<close>

lemma Mount_cases:
  assumes "Mount d g rangeOrder s req w = (r, w')"
  obtains (refused) fmt e where "r = Inr (emptyResponse, Some (wrapf fmt [] e))" "w' = w" "\<not> is_panic e"
  | (ran) attrib secret perm q where
      "unmarshalStringMap (reqAttributes req) = Inr attrib" "unmarshalStringMap (reqSecrets req) = Inr secret"
      "unmarshalFileMode (reqPermission req) = Inr perm"
      "GetSecretsStoreObjectContent d g (srvProvider s) (attribMap attrib) (map_option rangeOrder secret) perm w = (q, w')"
      "r = (case q of Inl e \<Rightarrow> mountFails ''failed to mount objects, error: %w'' e
            | Inr files \<Rightarrow> Inr (\<lparr>respObjectVersion = map versionOf files, respFiles = map responseFileOf files\<rparr>, None))"
proof -
  have np: "\<not> is_panic e" if "unmarshalStringMap x = Inl e \<or> unmarshalFileMode x = Inl e" for x e
    using that unmarshal_no_panic by blast
  show ?thesis
  proof (cases "\<exists>attrib secret perm. unmarshalStringMap (reqAttributes req) = Inr attrib \<and>
      unmarshalStringMap (reqSecrets req) = Inr secret \<and> unmarshalFileMode (reqPermission req) = Inr perm")
    case True
    then obtain attrib secret perm where dec: "unmarshalStringMap (reqAttributes req) = Inr attrib"
      "unmarshalStringMap (reqSecrets req) = Inr secret" "unmarshalFileMode (reqPermission req) = Inr perm" by blast
    obtain q w1 where q: "GetSecretsStoreObjectContent d g (srvProvider s) (attribMap attrib)
        (map_option rangeOrder secret) perm w = (q, w1)" by fastforce
    have "w1 = w'" "r = (case q of Inl e \<Rightarrow> mountFails ''failed to mount objects, error: %w'' e
            | Inr files \<Rightarrow> Inr (\<lparr>respObjectVersion = map versionOf files, respFiles = map responseFileOf files\<rparr>, None))"
      using assms dec q by (cases q; simp add: Mount_def responseLoop_map)+
    with dec q ran show ?thesis by blast
  next
    case False
    with assms np have "\<exists>fmt e. \<not> is_panic e \<and> r = mountFails fmt e \<and> w' = w"
      by (cases "unmarshalStringMap (reqAttributes req)"; cases "unmarshalStringMap (reqSecrets req)";
          cases "unmarshalFileMode (reqPermission req)") (simp add: Mount_def; blast)+
    then show ?thesis using refused by (auto simp: mountFails_def)
  qed
qed

lemma Mount_ok_files:
  assumes "Mount d g rangeOrder s req w = (Inr (resp, None), w')"
  obtains attrib secret perm files where
    "unmarshalStringMap (reqAttributes req) = Inr attrib" "unmarshalStringMap (reqSecrets req) = Inr secret"
    "unmarshalFileMode (reqPermission req) = Inr perm"
    "GetSecretsStoreObjectContent d g (srvProvider s) (attribMap attrib) (map_option rangeOrder secret) perm w = (Inr files, w')"
    "respFiles resp = map responseFileOf files" "respObjectVersion resp = map versionOf files"
  using assms
proof (cases rule: Mount_cases)
  case (ran attrib secret perm q)
  then obtain files where "q = Inr files" by (cases q) (auto simp: mountFails_def split: if_splits)
  with ran that show ?thesis by auto
qed auto

text \<open>What every request leaves: other variables, and the reports made before.\<close>

definition serverFrame :: "'v world \<Rightarrow> 'v world \<Rightarrow> bool" where
  "serverFrame w w' \<longleftrightarrow>
     (\<forall>k. k \<noteq> EnvironmentFilepathName \<longrightarrow> environ w' k = environ w k) \<and> prefix (reports w) (reports w')"

definition safeResponse :: "mountResponse \<Rightarrow> bool" where
  "safeResponse resp \<longleftrightarrow> list_all (\<lambda>f. safePath (rfPath f)) (respFiles resp) \<and>
     length (respObjectVersion resp) = length (respFiles resp)"

fun goodReply :: "rpc \<Rightarrow> rpcResponse \<Rightarrow> bool" where
  "goodReply (RpcMount req order) x = (case x of MountReply resp \<Rightarrow> safeResponse resp | _ \<Rightarrow> False)"
| "goodReply RpcVersion x = (case x of VersionReply v \<Rightarrow> vrVersion v = ''v1alpha1'' | _ \<Rightarrow> False)"
| "goodReply RpcCheck x = (x = CheckReply SERVING)"
| "goodReply RpcList x = False"

lemma Mount_frame:
  assumes "Mount d g rangeOrder s req w = (r, w')"
  shows "serverFrame w w'"
  using assms
proof (cases rule: Mount_cases)
  case (ran attrib secret perm q)
  from mount_frame[OF ran(4)] show ?thesis by (auto simp: serverFrame_def prefix_def)
qed (simp add: serverFrame_def)

lemma Mount_safe:
  assumes "Mount d g rangeOrder s req w = (Inr (resp, None), w')"
  shows "safeResponse resp"
  using assms
proof (rule Mount_ok_files)
  fix attrib secret perm files
  assume run: "GetSecretsStoreObjectContent d g (srvProvider s) (attribMap attrib) (map_option rangeOrder secret) perm w = (Inr files, w')"
    and "respFiles resp = map responseFileOf files" "respObjectVersion resp = map versionOf files"
  then show ?thesis using mount_safe[OF run] by (auto simp: safeResponse_def list_all_iff responseFileOf_def)
qed

lemma serverFrame_refl: "serverFrame w w"
  by (simp add: serverFrame_def)

lemma handle_frame: "handle d g s b q w = (r, w') \<Longrightarrow> serverFrame w w'"
  by (cases q) (auto simp: serverFrame_refl split: prod.splits dest: Mount_frame)

lemma handle_good: "handle d g s b q w = (Inr x, w') \<Longrightarrow> goodReply q x"
proof (cases q)
  case (RpcMount req order)
  assume "handle d g s b q w = (Inr x, w')"
  then obtain resp where "Mount d g order s req w = (Inr (resp, None), w')" "x = MountReply resp"
    unfolding RpcMount by (auto simp: result_simps clientView_def split: prod.splits option.splits)
  with Mount_safe RpcMount show ?thesis by auto
qed (auto simp: clientView_def Version_def Check_def List_def)

definition providerService ::
  "('v, 't, 'c, 'h, 'k) deps \<Rightarrow> 't authGlobals \<Rightarrow> csiDriverProviderServer \<Rightarrow> buildInfo \<Rightarrow>
   (rpc \<Rightarrow> string) \<Rightarrow> (string \<Rightarrow> go_error option) \<Rightarrow> (go_error option \<Rightarrow> string \<times> string) \<Rightarrow>
   (rpc, 'v world, rpcResponse) service" where
  "providerService d g s b fullMethod mkInstrument statusOf =
     \<lparr>svcHandler = handle d g s b, svcFullMethod = fullMethod, svcMkInstrument = mkInstrument,
      svcGoos = GOOS b, svcStatusOf = statusOf\<rparr>"

interpretation providerRun: rpc_contract
  "providerService d g s b fullMethod mkInstrument statusOf" serverFrame goodReply
  for d g s b fullMethod mkInstrument statusOf
  by unfold_locales (auto simp: providerService_def serverFrame_def[of _ "_\<lparr>vault := _\<rparr>"]
      serverFrame_def dest: handle_good handle_frame intro: prefix_order.trans)

section \<open>Properties\<close>

text \<open>
  Property C2. In any run of the server, over any sequence of requests and with any vault, every
  successful mount response holds only paths that stay inside the volume, and one object version
  per file.
\<close>

theorem served_safe:
  assumes "served (providerService d g s b fullMethod mkInstrument statusOf) s0 tr s1"
    and "(RpcMount req order, Inr x) \<in> set tr"
  shows "\<exists>resp. x = MountReply resp \<and> (\<forall>f\<in>set (respFiles resp). safePath (rfPath f)) \<and>
    length (respObjectVersion resp) = length (respFiles resp)"
  using providerRun.served_good[OF assms]
  by (auto simp: safeResponse_def list_all_iff split: rpcResponse.splits)

text \<open>
  Property C38. No run of the server changes any other environment variable than the one for the
  cloud environment file, and the reports of vault requests only grow.
\<close>

theorem served_environ:
  assumes "served (providerService d g s b fullMethod mkInstrument statusOf) s0 tr s1"
  shows "(\<forall>k. k \<noteq> ''AZURE_ENVIRONMENT_FILEPATH'' \<longrightarrow> environ (fst s1) k = environ (fst s0) k) \<and>
    prefix (reports (fst s0)) (reports (fst s1))"
  using providerRun.served_R[OF assms] by (simp add: serverFrame_def EnvironmentFilepathName_def)

text \<open>
  Property C37. Every answered request is recorded exactly once, in the order of the requests, with
  its method and the status of its outcome, errors included.
\<close>

theorem served_recorded:
  assumes "served (providerService d g s b fullMethod mkInstrument statusOf) s0 tr s1"
  shows "snd s1 = snd s0 @ map (\<lambda>(q, r). GrpcRequest
    [(''service.name'', ''csi-secrets-store-provider-azure''), (''provider'', ''azure''), (''os_type'', GOOS b),
     (''grpc_method'', fullMethod q),
     (''grpc_code'', fst (statusOf (case r of Inl e \<Rightarrow> Some e | Inr _ \<Rightarrow> None))),
     (''grpc_message'', snd (statusOf (case r of Inl e \<Rightarrow> Some e | Inr _ \<Rightarrow> None)))]) tr"
  using served_records[OF assms]
  by (simp add: requestRecord_def providerService_def commonAttributes_def case_prod_beta Let_def fun_eq_iff)

text \<open>
  Property C7. The transport is transparent: a driver that encodes its parameters, its secrets (both
  with distinct keys and valid UTF-8) and the file permission as JSON gets exactly the outcome of the
  mount operation on these values, as a response with one version and one file per file, or as the
  wrapped error with an empty response.
\<close>

theorem Mount_refines_mount:
  assumes "list_all validPair attrs" "distinct (map fst attrs)"
    and "list_all validPair secs" "distinct (map fst secs)" and "perm < 2 ^ 32"
  shows "Mount d g order s
      \<lparr>reqAttributes = marshalStringMap attrs, reqSecrets = marshalStringMap secs, reqPermission = Itoa perm\<rparr> w =
    (case GetSecretsStoreObjectContent d g (srvProvider s) (map_of attrs) (Some (order secs)) (of_nat perm) w of
       (Inl e, w') \<Rightarrow>
         (if is_panic e then Inl e
          else Inr (\<lparr>respObjectVersion = [], respFiles = []\<rparr>,
            Some (wrapf ''failed to mount objects, error: %w'' [] e)), w')
     | (Inr files, w') \<Rightarrow>
         (Inr (\<lparr>respObjectVersion = map versionOf files, respFiles = map responseFileOf files\<rparr>, None), w'))"
  by (simp add: Mount_def unmarshal_marshal[OF assms(1,2)] unmarshal_marshal[OF assms(3,4)]
      unmarshalFileMode_Itoa[OF assms(5)] attribMap_def responseLoop_map mountFails_def emptyResponse_def
      split: sum.splits prod.splits)

text \<open>
  Property C39. A mount that fails hands out nothing: whenever an error is returned the response is
  empty, and when a text of the request cannot be decoded nothing has happened to the environment,
  the vault or the reports.
\<close>

theorem Mount_error_empty:
  assumes "Mount d g order s req w = (Inr (resp, Some e), w')"
  shows "respFiles resp = [] \<and> respObjectVersion resp = [] \<and>
    (isl (unmarshalStringMap (reqAttributes req)) \<or> isl (unmarshalStringMap (reqSecrets req)) \<or>
     isl (unmarshalFileMode (reqPermission req)) \<longrightarrow> w' = w)"
  using assms
proof (cases rule: Mount_cases)
  case (ran attrib secret perm q)
  then show ?thesis by (cases q) (auto simp: mountFails_def emptyResponse_def split: if_splits)
qed (auto simp: emptyResponse_def)

text \<open>
  Property C40. The health endpoint answers 200 exactly when the socket can be dialled and the
  service answers SERVING within the timeout, and 503 otherwise; every connection it opened is
  closed.
\<close>

theorem ServeHTTP_iff:
  "(fst (ServeHTTP newClient check h) = HttpReply 200 ''ok'' \<longleftrightarrow>
      (\<exists>conn. newClient (''passthrough:'' @ UnixSocketPath h) (''unix'', UnixSocketPath h) = Inr conn \<and>
         check conn (RPCTimeout h) = Inr (Some SERVING))) \<and>
   (fst (ServeHTTP newClient check h) = HttpReply 200 ''ok'' \<or> (\<exists>e. fst (ServeHTTP newClient check h) = HttpError e 503)) \<and>
   snd (ServeHTTP newClient check h) =
     (case newClient (''passthrough:'' @ UnixSocketPath h) (''unix'', UnixSocketPath h) of Inl e \<Rightarrow> [] | Inr conn \<Rightarrow> [conn])"
  by (auto simp: ServeHTTP_def dialUnixSocket_def checkRPC_def rbind_def split: sum.splits)

text \<open>The health server's exit is reached only after a regular shutdown, never when it could not listen.\<close>

lemma Serve_exits_iff:
  "snd (Serve h listen) = Exits 1 \<longleftrightarrow> (\<exists>e. listen (hzHost h) = Some e \<and> errorsIs e ErrServerClosed)"
  by (auto simp: Serve_def split: option.splits)

lemma Serve_listen_error:
  "snd (Serve h (\<lambda>_. Some (External ''listen tcp :8989: bind: address already in use''))) = Returns"
  by (simp add: Serve_def ErrServerClosed_def)

section \<open>Witnesses\<close>

definition toyPairs :: "(string \<times> string) list" where
  "toyPairs =
     [(CSIAttributePodName, ''pod''), (CSIAttributePodNamespace, ''ns''), (UseVMManagedIdentityParameter, '' true''),
      (KeyVaultNameParameter, ''kv1''), (TenantIDParameter, ''tenant''), (CloudEnvFileNameParameter, ''/env.json''),
      (ObjectsParameter, ''o'')]"

definition toyRequest :: mountRequest where
  "toyRequest = \<lparr>reqAttributes = marshalStringMap toyPairs, reqSecrets = ''null'', reqPermission = Itoa 420\<rparr>"

definition toyServer :: csiDriverProviderServer where
  "toyServer = \<lparr>srvProvider = toyProvider\<rparr>"

definition toyBuild :: buildInfo where
  "toyBuild = \<lparr>BuildDate = ''d'', BuildVersion = ''v'', Vcs = ''c'', GOOS = ''linux'', GOARCH = ''amd64''\<rparr>"

definition toyService :: "(rpc, unit world, rpcResponse) service" where
  "toyService = providerService (toyDeps []) toyGlobals toyServer toyBuild (\<lambda>q. ''m'') (\<lambda>_. None) (\<lambda>e. (''c'', ''m''))"

definition toyResponse :: mountResponse where
  "toyResponse = \<lparr>respObjectVersion = [versionOf toyFile], respFiles = [responseFileOf toyFile]\<rparr>"

lemma toyPairs_valid: "list_all validPair toyPairs" "distinct (map fst toyPairs)"
  by code_simp+

lemma toyPairs_map: "map_of toyPairs = toyAttrib"
  by (simp add: toyPairs_def toyAttrib_def)

lemma null_map: "unmarshalStringMap ''null'' = Inr None"
  by code_simp

lemma toy_Mount:
  obtains w' where "Mount (toyDeps []) toyGlobals id toyServer toyRequest toyWorld = (Inr (toyResponse, None), w')"
proof -
  obtain w' where run: "GetSecretsStoreObjectContent (toyDeps []) toyGlobals toyProvider toyAttrib None 420 toyWorld = (Inr [toyFile], w')"
    by (rule toy_run)
  have "unmarshalFileMode (Itoa 420) = Inr 420" using unmarshalFileMode_Itoa[of 420] by simp
  then have "Mount (toyDeps []) toyGlobals id toyServer toyRequest toyWorld = (Inr (toyResponse, None), w')"
    by (simp add: Mount_def toyRequest_def unmarshal_marshal[OF toyPairs_valid] null_map attribMap_def toyPairs_map
        toyServer_def run responseLoop_map toyResponse_def)
  with that show thesis by blast
qed

definition toyTrace :: "(rpc \<times> rpcResponse result) list" where
  "toyTrace = [(RpcMount toyRequest id, Inr (MountReply toyResponse))]"

lemma toy_served: obtains s1 where "served toyService (toyWorld, []) toyTrace s1"
proof -
  obtain w' where m: "Mount (toyDeps []) toyGlobals id toyServer toyRequest toyWorld = (Inr (toyResponse, None), w')"
    by (rule toy_Mount)
  have "\<exists>s1. intercepted toyService (RpcMount toyRequest id) (toyWorld, []) = (Inr (MountReply toyResponse), s1)"
    by (simp add: intercepted_def toyService_def providerService_def LogInterceptor_def NewStatsReporter_def m clientView_def)
  then obtain s1 where "intercepted toyService (RpcMount toyRequest id) (toyWorld, []) = (Inr (MountReply toyResponse), s1)"
    by blast
  from served_request[OF served_start this] that show thesis by (simp add: toyTrace_def)
qed

theorem served_safe_witness: "safePath (rfPath (responseFileOf toyFile))"
proof -
  obtain s1 where s1: "served toyService (toyWorld, []) toyTrace s1" by (rule toy_served)
  have "(RpcMount toyRequest id, Inr (MountReply toyResponse)) \<in> set toyTrace" by (simp add: toyTrace_def)
  from served_safe[OF s1[unfolded toyService_def] this] show ?thesis by (simp add: toyResponse_def)
qed

theorem served_environ_witness:
  "\<exists>s1. served toyService (toyWorld, []) toyTrace s1 \<and> environ (fst s1) ''PATH'' = None"
proof -
  obtain s1 where s1: "served toyService (toyWorld, []) toyTrace s1" by (rule toy_served)
  from served_environ[OF s1[unfolded toyService_def]] have "environ (fst s1) ''PATH'' = None" by (simp add: toyWorld_def)
  with s1 show ?thesis by blast
qed

theorem served_recorded_witness:
  "\<exists>s1. served toyService (toyWorld, []) toyTrace s1 \<and> length (snd s1) = 1"
proof -
  obtain s1 where s1: "served toyService (toyWorld, []) toyTrace s1" by (rule toy_served)
  from served_recorded[OF s1[unfolded toyService_def]] have "length (snd s1) = 1" by (simp add: toyTrace_def)
  with s1 show ?thesis by blast
qed

theorem Mount_refines_mount_witness:
  "snd (Mount (toyDeps []) toyGlobals id toyServer
     \<lparr>reqAttributes = marshalStringMap toyPairs, reqSecrets = marshalStringMap [(''clientid'', ''x'')], reqPermission = Itoa 420\<rparr> toyWorld) =
   snd (GetSecretsStoreObjectContent (toyDeps []) toyGlobals toyProvider (map_of toyPairs) (Some [(''clientid'', ''x'')]) 420 toyWorld)"
proof -
  have v: "list_all validPair [(''clientid'', ''x'')]" "distinct (map fst [(''clientid'', ''x'')])" by code_simp+
  show ?thesis
    using Mount_refines_mount[OF toyPairs_valid v, of 420 "toyDeps []" toyGlobals id toyServer toyWorld]
    by (simp add: toyServer_def split: prod.splits sum.splits)
qed

theorem Mount_error_empty_witness:
  "\<exists>resp e. Mount (toyDeps []) toyGlobals id toyServer (toyRequest\<lparr>reqAttributes := ''{''\<rparr>) toyWorld = (Inr (resp, Some e), toyWorld) \<and>
     respFiles resp = []"
proof -
  let ?req = "toyRequest\<lparr>reqAttributes := ''{''\<rparr>"
  have "unmarshalStringMap ''{'' = Inl jsonSyntaxError" by code_simp
  then have m: "Mount (toyDeps []) toyGlobals id toyServer ?req toyWorld =
      (Inr (emptyResponse, Some (wrapf ''failed to unmarshal attributes, error: %w'' [] jsonSyntaxError)), toyWorld)"
    by (simp add: Mount_def mountFails_def jsonSyntaxError_def)
  from Mount_error_empty[OF m] m show ?thesis by blast
qed

end
