(* ===== verification/Sha256.thy ===== *)
theory Sha256
  imports Prelude
begin

text \<open>
  The parts of the standard library that \<open>resolveServerName\<close> uses: \<open>crypto/sha256\<close> and the
  extended-hex alphabet of \<open>encoding/base32\<close> without padding.
\<close>

unbundle bit_operations_syntax

type_synonym w32 = "32 word"

section \<open>SHA-256\<close>

definition kTable :: "w32 list" where
  "kTable =
    [1116352408, 1899447441, 3049323471, 3921009573, 961987163, 1508970993, 2453635748, 2870763221,
     3624381080, 310598401, 607225278, 1426881987, 1925078388, 2162078206, 2614888103, 3248222580,
     3835390401, 4022224774, 264347078, 604807628, 770255983, 1249150122, 1555081692, 1996064986,
     2554220882, 2821834349, 2952996808, 3210313671, 3336571891, 3584528711, 113926993, 338241895,
     666307205, 773529912, 1294757372, 1396182291, 1695183700, 1986661051, 2177026350, 2456956037,
     2730485921, 2820302411, 3259730800, 3345764771, 3516065817, 3600352804, 4094571909, 275423344,
     430227734, 506948616, 659060556, 883997877, 958139571, 1322822218, 1537002063, 1747873779,
     1955562222, 2024104815, 2227730452, 2361852424, 2428436474, 2756734187, 3204031479, 3329325298]"

definition hInit :: "w32 list" where
  "hInit = [0x6a09e667, 0xbb67ae85, 0x3c6ef372, 0xa54ff53a, 0x510e527f, 0x9b05688c, 0x1f83d9ab, 0x5be0cd19]"

definition rotr :: "nat \<Rightarrow> w32 \<Rightarrow> w32" where
  "rotr n x = (drop_bit n x OR push_bit (32 - n) x)"

text \<open>The \<open>k\<close> lowest bytes of a word, most significant first.\<close>

definition beBytes :: "nat \<Rightarrow> 'a::len word \<Rightarrow> bytes" where
  "beBytes k x = map (\<lambda>i. char_of (uint (take_bit 8 (drop_bit (8 * (k - 1 - i)) x)))) [0..<k]"

definition shaPad :: "bytes \<Rightarrow> bytes" where
  "shaPad m = m @ [CHR 0x80] @ replicate ((119 - length m mod 64) mod 64) (CHR 0x00) @
     beBytes 8 (of_nat (8 * length m) :: 64 word)"

definition word4 :: "bytes \<Rightarrow> w32" where
  "word4 bs = foldl (\<lambda>w c. push_bit 8 w OR of_char c) 0 bs"

definition blockWords :: "bytes \<Rightarrow> w32 list" where
  "blockWords b = map (\<lambda>i. word4 (take 4 (drop (4 * i) b))) [0..<16]"

fun extend :: "nat \<Rightarrow> w32 list \<Rightarrow> w32 list" where
  "extend 0 w = w"
| "extend (Suc k) w =
     (let t = length w;
          v1 = w ! (t - 2); v2 = w ! (t - 15);
          t1 = rotr 17 v1 XOR rotr 19 v1 XOR drop_bit 10 v1;
          t2 = rotr 7 v2 XOR rotr 18 v2 XOR drop_bit 3 v2
      in extend k (w @ [t1 + w ! (t - 7) + t2 + w ! (t - 16)]))"

fun shaRound :: "w32 list \<Rightarrow> w32 \<times> w32 \<Rightarrow> w32 list" where
  "shaRound [a, b, c, d, e, f, g, h] (k, w) =
     (let t1 = h + (rotr 6 e XOR rotr 11 e XOR rotr 25 e) + ((e AND f) XOR (NOT e AND g)) + k + w;
          t2 = (rotr 2 a XOR rotr 13 a XOR rotr 22 a) + ((a AND b) XOR (a AND c) XOR (b AND c))
      in [t1 + t2, a, b, c, d + t1, e, f, g])"
| "shaRound st kw = st"

definition shaBlock :: "w32 list \<Rightarrow> bytes \<Rightarrow> w32 list" where
  "shaBlock st b = map2 (+) st (foldl shaRound st (zip kTable (extend 48 (blockWords b))))"

definition Sum256 :: "bytes \<Rightarrow> bytes" where
  "Sum256 m =
     (let p = shaPad m;
          st = foldl (\<lambda>st i. shaBlock st (take 64 (drop (64 * i) p))) hInit [0..<length p div 64]
      in concat (map (\<lambda>x. beBytes 4 x) st))"

section \<open>base32\<close>

definition b32HexChar :: "nat \<Rightarrow> char" where
  "b32HexChar n = (if n < 10 then char_of (48 + n) else char_of (55 + n))"

text \<open>Five bits at a time from the most significant bit, the last digit filled with zeros.\<close>

definition byteBits :: "char \<Rightarrow> bool list" where
  "byteBits c = map (\<lambda>i. odd ((of_char c :: nat) div 2 ^ (7 - i))) [0..<8]"

definition digitOf :: "bool list \<Rightarrow> nat" where
  "digitOf bs = foldl (\<lambda>n b. 2 * n + of_bool b) 0 bs"

function b32Digits :: "bool list \<Rightarrow> nat list" where
  "b32Digits bs =
     (if bs = [] then []
      else digitOf (take 5 (bs @ replicate 4 False)) # b32Digits (drop 5 bs))"
  by pat_completeness auto
termination by (relation "measure length") auto

declare b32Digits.simps [simp del]

definition b32HexEncode :: "bytes \<Rightarrow> string" where
  "b32HexEncode bs = map b32HexChar (b32Digits (concat (map byteBits bs)))"

section \<open>Facts\<close>

lemma length_beBytes [simp]: "length (beBytes k n) = k"
  by (simp add: beBytes_def)

lemma length_shaRound [simp]: "length (shaRound st kw) = length st"
  by (induction st kw rule: shaRound.induct) (auto simp: Let_def)

lemma length_foldl_shaRound: "length (foldl shaRound st kws) = length st"
  by (induction kws arbitrary: st) auto

lemma length_shaBlock: "length (shaBlock st b) = length st"
  by (simp add: shaBlock_def length_foldl_shaRound)

lemma length_Sum256: "length (Sum256 m) = 32"
proof -
  have l: "length (foldl (\<lambda>st i. shaBlock st (f i)) st is) = length st" for f st and "is" :: "nat list"
    by (induction "is" arbitrary: st) (auto simp: length_shaBlock)
  have "length (concat (map (\<lambda>x. beBytes 4 x) xs)) = 4 * length xs" for xs :: "w32 list"
    by (induction xs) auto
  then show ?thesis by (simp add: Sum256_def Let_def l hInit_def)
qed

text \<open>The padding fills whole blocks.\<close>

lemma shaPad_blocks: "length (shaPad m) mod 64 = 0"
proof -
  have "(n + 1 + (119 - n mod 64) mod 64 + 8) mod 64 = 0" for n :: nat
  proof -
    define q r where "q = n div 64" "r = n mod 64"
    then have n: "n = q * 64 + r" "n mod 64 = r" "r < 64" by simp_all
    have "(119 - r) mod 64 = (if r \<le> 55 then 55 - r else 119 - r)"
    proof (cases "r \<le> 55")
      case True
      then have "119 - r = (55 - r) + 64" by simp
      then have "(119 - r) mod 64 = (55 - r) mod 64" by (simp only: mod_add_self2)
      with True show ?thesis by simp
    qed (use n(3) in simp)
    then have "n + 1 + (119 - n mod 64) mod 64 + 8 = (if r \<le> 55 then (q + 1) * 64 else (q + 2) * 64)"
      unfolding n(2) using n(3) by (simp add: n(1))
    then show ?thesis by (auto split: if_splits simp del: add_mult_distrib)
  qed
  from this[of "length m"] show ?thesis by (simp add: shaPad_def ac_simps)
qed

lemma digitOf_bound: "digitOf bs < 2 ^ length bs"
proof (induction bs rule: rev_induct)
  case (snoc b bs)
  then show ?case by (cases b) (auto simp: digitOf_def)
qed (simp add: digitOf_def)

lemma b32Digits_less: "d \<in> set (b32Digits bs) \<Longrightarrow> d < 32"
proof (induction bs rule: b32Digits.induct)
  case (1 bs)
  have "digitOf (take 5 (bs @ replicate 4 False)) < 32"
  proof -
    have "length (take 5 (bs @ replicate 4 False)) \<le> 5" by simp
    then have "(2::nat) ^ length (take 5 (bs @ replicate 4 False)) \<le> 2 ^ 5" by (rule power_increasing) simp
    then show ?thesis using digitOf_bound[of "take 5 (bs @ replicate 4 False)"] by simp
  qed
  with 1 show ?case by (cases "bs = []") (auto simp: b32Digits.simps[of bs] b32Digits.simps[of "[]"])
qed

lemma length_b32Digits: "length (b32Digits bs) = (length bs + 4) div 5"
proof (induction bs rule: b32Digits.induct)
  case (1 bs)
  show ?case
  proof (cases "bs = []")
    case False
    have "Suc ((n - 5 + 4) div 5) = (n + 4) div 5" if "0 < n" for n :: nat
    proof (cases "5 \<le> n")
      case True
      then have "n + 4 = (n - 5 + 4) + 5" by simp
      then show ?thesis by (metis div_add_self2 Suc_eq_plus1 zero_neq_numeral)
    next
      case False
      then have "n \<in> {1, 2, 3, 4}" using that by auto
      then show ?thesis by auto
    qed
    from this[of "length bs"] 1 False show ?thesis by (simp add: b32Digits.simps[of bs])
  qed (simp add: b32Digits.simps)
qed

lemma length_b32HexEncode: "length (b32HexEncode bs) = (8 * length bs + 4) div 5"
proof -
  have "length (concat (map byteBits bs)) = 8 * length bs" by (induction bs) (auto simp: byteBits_def)
  then show ?thesis by (simp add: b32HexEncode_def length_b32Digits)
qed

lemma b32HexEncode_chars:
  "c \<in> set (b32HexEncode bs) \<Longrightarrow>
   48 \<le> (of_char c :: nat) \<and> (of_char c :: nat) \<le> 57 \<or> 65 \<le> (of_char c :: nat) \<and> (of_char c :: nat) \<le> 86"
  by (auto simp: b32HexEncode_def b32HexChar_def dest!: b32Digits_less)

end
