(* ===== verification/IdentityBinding.thy ===== *)
theory IdentityBinding
  imports Sha256 GoStrings
begin

text \<open>
  \<open>internal/identitybinding\<close>: making the proxy transport of identity binding. The process
  environment is a map that the code changes for the time of one SDK call and restores in a
  deferred function, which also runs on a panic. The file system, the TLS connection and the SDK
  constructor, which reads the environment, are the fields of a record. Reflection walks a tree of
  values; \<open>'t\<close> is the type of a transport.
\<close>

type_synonym env = "string \<rightharpoonup> string"

section \<open>Constants and configuration\<close>

definition defaultTokenProxyURL :: string where
  "defaultTokenProxyURL = ''https://kubernetes.default.svc.cluster.local''"

definition defaultCAFile :: string where
  "defaultCAFile = ''/var/run/secrets/kubernetes.io/serviceaccount/ca.crt''"

definition sniHashSalt :: string where
  "sniHashSalt = ''identity-binding''"

definition sniPrefix :: string where
  "sniPrefix = ''a''"

definition sniSuffix :: string where
  "sniSuffix = ''.ests.aks''"

definition apiServerSANPrefix :: string where
  "apiServerSANPrefix = ''hcp-kubernetes.''"

definition apiServerSANSuffix :: string where
  "apiServerSANSuffix = ''.svc.cluster.local''"

record ibConfig =
  TokenProxyURL :: string
  SNIName :: string

section \<open>Reflection\<close>

text \<open>
  A value as \<open>reflect\<close> sees it: a struct with its fields, a pointer, an interface field that holds
  a transport or nil, or anything else. Operations on the wrong kind panic.
\<close>

datatype 't rvalue =
    RStruct "(string \<times> 't rvalue) list"
  | RPtr "'t rvalue option"
  | RTransporter "'t option"
  | ROther

fun FieldByName :: "'t rvalue \<Rightarrow> string \<Rightarrow> 't rvalue option result" where
  "FieldByName (RStruct fs) name = Inr (map_of fs name)"
| "FieldByName v name = Inl (Panic ''reflect: call of reflect.Value.FieldByName on non-struct Value'')"

fun IsNil :: "'t rvalue \<Rightarrow> bool result" where
  "IsNil (RPtr p) = Inr (p = None)"
| "IsNil (RTransporter t) = Inr (t = None)"
| "IsNil v = Inl (Panic ''reflect: call of reflect.Value.IsNil on non-nilable Value'')"

fun Elem :: "'t rvalue \<Rightarrow> 't rvalue result" where
  "Elem (RPtr (Some v)) = Inr v"
| "Elem v = Inl (Panic ''reflect: call of reflect.Value.Elem on zero or non-pointer Value'')"

fun transporterOf :: "'t rvalue \<Rightarrow> 't result" where
  "transporterOf (RTransporter (Some t)) = Inr t"
| "transporterOf v = Inl (Panic ''interface conversion'')"

definition errField :: "string \<Rightarrow> go_error" where
  "errField msg = Errorf msg []"

text \<open>A pointer field that must be there and not nil.\<close>

definition pointerField :: "'t rvalue \<Rightarrow> string \<Rightarrow> string \<Rightarrow> 't rvalue result" where
  "pointerField v name msg =
     rbind (FieldByName v name) (\<lambda>f.
       case f of
         None \<Rightarrow> Inl (errField msg)
       | Some x \<Rightarrow> rbind (IsNil x) (\<lambda>isNil. if isNil then Inl (errField msg) else Inr x))"

definition structField :: "'t rvalue \<Rightarrow> string \<Rightarrow> string \<Rightarrow> 't rvalue result" where
  "structField v name msg =
     rbind (FieldByName v name) (\<lambda>f. case f of None \<Rightarrow> Inl (errField msg) | Some x \<Rightarrow> Inr x)"

definition extractProxyTransport :: "'t rvalue \<Rightarrow> 't result" where
  "extractProxyTransport wic =
     rbind (Elem wic) (\<lambda>v.
     rbind (pointerField v ''cred'' ''field 'cred' not found or nil on WorkloadIdentityCredential'') (\<lambda>cred.
     rbind (Elem cred) (\<lambda>credV.
     rbind (pointerField credV ''client'' ''field 'client' not found or nil on ClientAssertionCredential'') (\<lambda>client.
     rbind (Elem client) (\<lambda>clientV.
     rbind (structField clientV ''opts'' ''field 'opts' not found on confidentialClient'') (\<lambda>opts.
     rbind (structField opts ''ClientOptions'' ''field 'ClientOptions' not found on confidentialClientOptions'') (\<lambda>co.
     rbind (structField co ''Transport'' ''field 'Transport' not found on ClientOptions'') (\<lambda>tf.
     rbind (IsNil tf) (\<lambda>isNil.
     if isNil then Inl (errField ''no transport configured on credential'')
     else transporterOf tf)))))))))"

section \<open>The server name\<close>

text \<open>The options of the credential that is made only for its transport.\<close>

record throwawayOptions =
  optClientID :: string
  optTenantID :: string
  optTokenFilePath :: string
  optDisableInstanceDiscovery :: bool
  optEnableAzureProxy :: bool

definition throwaway :: throwawayOptions where
  "throwaway = \<lparr>optClientID = ''placeholder'', optTenantID = ''placeholder'', optTokenFilePath = ''/dev/null'',
     optDisableInstanceDiscovery = True, optEnableAzureProxy = True\<rparr>"

record 't ibLib =
  ReadCAFile :: "bytes result"
  CAFileExists :: bool
  AppendCertsFromPEM :: "bytes \<Rightarrow> bool"
  DialTLS :: "bytes \<Rightarrow> string \<Rightarrow> string list list result"
  NewWorkloadIdentityCredential :: "throwawayOptions \<Rightarrow> env \<Rightarrow> 't rvalue result"

text \<open>The loop over the subject alternative names; a slice whose bounds cross panics.\<close>

fun sanLoop :: "string list \<Rightarrow> string result" where
  "sanLoop [] = Inl (Errorf ''cluster ID SAN not found in API server certificate (use --sni-name flag to provide SNI name explicitly)'' [])"
| "sanLoop (san # sans) =
     (if prefix apiServerSANPrefix san \<and> suffix apiServerSANSuffix san then
        (let lo = length apiServerSANPrefix; hi = length san - length apiServerSANSuffix in
         if hi < lo then Inl (Panic ''slice bounds out of range'')
         else
           (let ident = take (hi - lo) (drop lo san) in
            if ident = [] then Inl (Errorf ''empty cluster ID in SAN %q'' [san]) else Inr ident))
      else sanLoop sans)"

definition extractClusterID :: "'t ibLib \<Rightarrow> env \<Rightarrow> string result" where
  "extractClusterID lib env =
     rbind (wrapErr (wrapf ''read CA file %s: %w (use --sni-name flag to skip automatic SNI detection)'' [defaultCAFile])
              (ReadCAFile lib)) (\<lambda>caCert.
     rbind (guardE (AppendCertsFromPEM lib caCert) (Errorf ''no valid certificates found in %s'' [defaultCAFile])) (\<lambda>_.
     let apiServerPort = (case env ''KUBERNETES_SERVICE_PORT'' of None \<Rightarrow> ''443'' | Some p \<Rightarrow> if p = [] then ''443'' else p) in
     rbind (wrapErr (wrapf ''TLS connect to API server: %w'' [])
              (DialTLS lib caCert (''kubernetes.default.svc.cluster.local:'' @ apiServerPort))) (\<lambda>certs.
     case certs of
       [] \<Rightarrow> Inl (Errorf ''no certificates presented by API server'' [])
     | leaf # _ \<Rightarrow> sanLoop leaf)))"

definition resolveServerName :: "string \<Rightarrow> string" where
  "resolveServerName clusterID =
     (let hashedBytes = Sum256 (sniHashSalt @ clusterID);
          hashedID = b32HexEncode hashedBytes
      in ToLower (sniPrefix @ hashedID @ sniSuffix))"

definition computeSNIName :: "'t ibLib \<Rightarrow> env \<Rightarrow> string result" where
  "computeSNIName lib env =
     rbind (wrapErr (wrapf ''extract cluster ID from API server certificate: %w'' []) (extractClusterID lib env))
       (\<lambda>clusterID. Inr (resolveServerName clusterID))"

section \<open>The transport\<close>

text \<open>\<open>os.Setenv\<close> with its error dropped: a value with a NUL byte is not set.\<close>

definition setenv :: "string \<Rightarrow> string \<Rightarrow> env \<Rightarrow> env" where
  "setenv k v env = (if CHR 0x00 \<in> set v then env else env(k \<mapsto> v))"

definition unsetenv :: "string \<Rightarrow> env \<Rightarrow> env" where
  "unsetenv k env = env(k := None)"

definition envKeys :: "string list" where
  "envKeys = [''AZURE_KUBERNETES_TOKEN_PROXY'', ''AZURE_KUBERNETES_SNI_NAME'', ''AZURE_KUBERNETES_CA_FILE'']"

text \<open>The values saved: a map that holds the keys that were set.\<close>

definition saveEnv :: "env \<Rightarrow> env" where
  "saveEnv env = foldl (\<lambda>saved k. case env k of None \<Rightarrow> saved | Some v \<Rightarrow> saved(k \<mapsto> v)) Map.empty envKeys"

definition restoreEnv :: "env \<Rightarrow> env \<Rightarrow> env" where
  "restoreEnv saved env =
     foldl (\<lambda>e k. case saved k of Some v \<Rightarrow> setenv k v e | None \<Rightarrow> unsetenv k e) env envKeys"

definition proxyEnv :: "string \<Rightarrow> string \<Rightarrow> bool \<Rightarrow> env \<Rightarrow> env" where
  "proxyEnv tokenProxyURL sniName caFileExists env =
     (let env1 = setenv ''AZURE_KUBERNETES_TOKEN_PROXY'' tokenProxyURL env;
          env2 = setenv ''AZURE_KUBERNETES_SNI_NAME'' sniName env1
      in if caFileExists then setenv ''AZURE_KUBERNETES_CA_FILE'' defaultCAFile env2
         else unsetenv ''AZURE_KUBERNETES_CA_FILE'' env2)"

definition CreateProxyTransport :: "'t ibLib \<Rightarrow> ibConfig \<Rightarrow> env \<Rightarrow> 't result \<times> env" where
  "CreateProxyTransport lib cfg env =
     (let tokenProxyURL = (if TokenProxyURL cfg = [] then defaultTokenProxyURL else TokenProxyURL cfg);
          sni = (if SNIName cfg = [] then wrapErr (wrapf ''compute SNI name: %w'' []) (computeSNIName lib env)
                 else Inr (SNIName cfg))
      in case sni of
           Inl e \<Rightarrow> (Inl e, env)
         | Inr sniName \<Rightarrow>
             (let saved = saveEnv env;
                  env1 = proxyEnv tokenProxyURL sniName (CAFileExists lib) env;
                  r = rbind (wrapErr (wrapf ''create throwaway credential for proxy transport extraction: %w'' [])
                               (NewWorkloadIdentityCredential lib throwaway env1)) extractProxyTransport
              in (r, restoreEnv saved env1)))"

section \<open>Facts\<close>

text \<open>No process environment holds a NUL byte.\<close>

definition validEnv :: "env \<Rightarrow> bool" where
  "validEnv env \<longleftrightarrow> (\<forall>k v. env k = Some v \<longrightarrow> CHR 0x00 \<notin> set v)"

lemma saveEnv_apply: "saveEnv env k = (if k \<in> set envKeys then env k else None)"
  by (auto simp: saveEnv_def envKeys_def split: option.splits)

lemma restoreEnv_apply:
  assumes "validEnv saved"
  shows "restoreEnv saved env k = (if k \<in> set envKeys then saved k else env k)"
  using assms
  by (auto simp: restoreEnv_def envKeys_def setenv_def unsetenv_def validEnv_def split: option.splits)

lemma proxyEnv_other: "k \<notin> set envKeys \<Longrightarrow> proxyEnv u s b env k = env k"
  by (auto simp: proxyEnv_def envKeys_def setenv_def unsetenv_def Let_def)

lemma restore_save:
  assumes "validEnv env"
  shows "restoreEnv (saveEnv env) (proxyEnv u s b env) = env"
proof
  fix k
  have "validEnv (saveEnv env)" using assms by (auto simp: validEnv_def saveEnv_apply split: if_splits)
  from restoreEnv_apply[OF this] show "restoreEnv (saveEnv env) (proxyEnv u s b env) k = env k"
    using proxyEnv_other[of k u s b env] by (simp add: saveEnv_apply)
qed

lemma foldRunes_ascii:
  "(\<And>c. c \<in> set s \<Longrightarrow> (of_char c :: nat) < 0x80) \<Longrightarrow> foldRunes lowerTable s = map lowerChar s"
proof (induction s)
  case (Cons c s)
  then have "(of_char c :: nat) < 0x80" by simp
  then have "c \<noteq> CHR 0xC4" "c \<noteq> CHR 0xE2" by auto
  then have "find (\<lambda>(r, d). r \<noteq> [] \<and> prefix r (c # s)) lowerTable = None" by (simp add: lowerTable_def)
  with Cons show ?case by simp
qed simp

text \<open>A letter or digit of a lower-case host name.\<close>

definition labelChar :: "char \<Rightarrow> bool" where
  "labelChar c \<longleftrightarrow> (let n = of_char c :: nat in 48 \<le> n \<and> n \<le> 57 \<or> 97 \<le> n \<and> n \<le> 122)"

lemma labelChar_lower:
  assumes "48 \<le> (of_char c :: nat) \<and> (of_char c :: nat) \<le> 57 \<or> 65 \<le> (of_char c :: nat) \<and> (of_char c :: nat) \<le> 86"
  shows "labelChar (lowerChar c)"
  using assms by (auto simp: labelChar_def lowerChar_def Let_def)

lemma resolveServerName_form:
  obtains h where "resolveServerName ident = ''a'' @ h @ ''.ests.aks''" "length h = 52"
    "\<And>c. c \<in> set h \<Longrightarrow> labelChar c"
proof -
  let ?h = "b32HexEncode (Sum256 (sniHashSalt @ ident))"
  have "(of_char c :: nat) < 0x80" if "c \<in> set (sniPrefix @ ?h @ sniSuffix)" for c
    using that by (auto simp: sniPrefix_def sniSuffix_def dest!: b32HexEncode_chars)
  then have low: "foldRunes lowerTable (sniPrefix @ ?h @ sniSuffix) = map lowerChar (sniPrefix @ ?h @ sniSuffix)"
    by (rule foldRunes_ascii)
  have "resolveServerName ident = ''a'' @ map lowerChar ?h @ ''.ests.aks''"
    unfolding resolveServerName_def ToLower_def Let_def low
    by (simp add: sniPrefix_def sniSuffix_def lowerChar_def)
  moreover have "length (map lowerChar ?h) = 52" by (simp add: length_b32HexEncode length_Sum256)
  moreover have "labelChar c" if "c \<in> set (map lowerChar ?h)" for c
    using that by (auto intro!: labelChar_lower dest!: b32HexEncode_chars)
  ultimately show ?thesis using that by blast
qed

lemma labelChar_not: "labelChar c \<Longrightarrow> c \<noteq> CHR 0x00 \<and> c \<noteq> CHR ''.''"
  by (auto simp: labelChar_def)

lemma computeSNIName_no_nul: "computeSNIName lib env = Inr sni \<Longrightarrow> CHR 0x00 \<notin> set sni"
proof -
  assume "computeSNIName lib env = Inr sni"
  then obtain ident where "sni = resolveServerName ident" by (auto simp: computeSNIName_def result_simps)
  moreover obtain h where "resolveServerName ident = ''a'' @ h @ ''.ests.aks''" "\<And>c. c \<in> set h \<Longrightarrow> labelChar c"
    by (rule resolveServerName_form[of ident]) blast
  ultimately show ?thesis using labelChar_not by auto
qed

lemma CreateProxyTransport_restores: "validEnv env \<Longrightarrow> snd (CreateProxyTransport lib cfg env) = env"
  using restore_save[of env] by (auto simp: CreateProxyTransport_def Let_def split: sum.splits)

section \<open>Properties\<close>

text \<open>
  Property C18. Making the proxy transport leaves the process environment exactly as it was,
  whether it succeeds, fails or panics.
\<close>

theorem CreateProxyTransport_hermetic:
  assumes "validEnv env"
  shows "snd (CreateProxyTransport lib cfg env) = env"
  using assms by (rule CreateProxyTransport_restores)

text \<open>
  The SDK builds the transport under exactly the configured variables: a transport is
  returned only if the constructor, run with the proxy URL (or its default), the server name (or
  the computed one) and the CA file if there is one, made a credential that holds this transport.
\<close>

lemma CreateProxyTransport_env:
  assumes "fst (CreateProxyTransport lib cfg env) = Inr t"
    and "CHR 0x00 \<notin> set (TokenProxyURL cfg)" "CHR 0x00 \<notin> set (SNIName cfg)"
  shows "\<exists>sni wic. (SNIName cfg \<noteq> [] \<and> sni = SNIName cfg \<or> SNIName cfg = [] \<and> computeSNIName lib env = Inr sni) \<and>
    NewWorkloadIdentityCredential lib throwaway
        (env(''AZURE_KUBERNETES_TOKEN_PROXY'' \<mapsto>
               (if TokenProxyURL cfg = [] then ''https://kubernetes.default.svc.cluster.local'' else TokenProxyURL cfg),
             ''AZURE_KUBERNETES_SNI_NAME'' \<mapsto> sni,
             ''AZURE_KUBERNETES_CA_FILE'' := (if CAFileExists lib then Some defaultCAFile else None))) = Inr wic \<and>
    extractProxyTransport wic = Inr t"
proof -
  let ?url = "if TokenProxyURL cfg = [] then defaultTokenProxyURL else TokenProxyURL cfg"
  from assms(1) obtain sni wic where
    sni: "SNIName cfg \<noteq> [] \<and> sni = SNIName cfg \<or> SNIName cfg = [] \<and> computeSNIName lib env = Inr sni"
    and wic: "NewWorkloadIdentityCredential lib throwaway (proxyEnv ?url sni (CAFileExists lib) env) = Inr wic"
      "extractProxyTransport wic = Inr t"
    by (auto simp: CreateProxyTransport_def Let_def result_simps split: sum.splits if_splits)
  have nul: "CHR 0x00 \<notin> set ?url" "CHR 0x00 \<notin> set defaultCAFile"
    using assms(2) by (auto simp: defaultTokenProxyURL_def defaultCAFile_def)
  have "CHR 0x00 \<notin> set sni" using sni assms(3) computeSNIName_no_nul by blast
  then have "proxyEnv ?url sni (CAFileExists lib) env =
      env(''AZURE_KUBERNETES_TOKEN_PROXY'' \<mapsto> ?url, ''AZURE_KUBERNETES_SNI_NAME'' \<mapsto> sni,
          ''AZURE_KUBERNETES_CA_FILE'' := (if CAFileExists lib then Some defaultCAFile else None))"
    using nul by (simp add: proxyEnv_def setenv_def unsetenv_def)
  with sni wic show ?thesis by (metis defaultTokenProxyURL_def)
qed

text \<open>
  Property C36. The generated server name is a host name of three labels as RFC 1035 wants them: the
  first is the letter a followed by 52 lower-case letters and digits, so it starts with a letter
  and is within the limit of 63, and the name ends in the fixed suffix.
\<close>

theorem resolveServerName_rfc1035:
  "\<exists>h. split_on (CHR ''.'') (resolveServerName clusterID) = [CHR ''a'' # h, ''ests'', ''aks''] \<and>
     length (CHR ''a'' # h) = 53 \<and> list_all labelChar h"
proof -
  obtain h where h: "resolveServerName clusterID = ''a'' @ h @ ''.ests.aks''" "length h = 52"
    "\<And>c. c \<in> set h \<Longrightarrow> labelChar c" by (rule resolveServerName_form[of clusterID]) blast
  have nd: "CHR ''.'' \<notin> set (CHR ''a'' # h)" using h(3) labelChar_not by auto
  have e: "split_on (CHR ''.'') ''ests.aks'' = [''ests'', ''aks'']" by simp
  have "split_on (CHR ''.'') ((CHR ''a'' # h) @ CHR ''.'' # ''ests.aks'') = [CHR ''a'' # h, ''ests'', ''aks'']"
    unfolding split_on_append_sep split_on_no_sep[OF nd] e by simp
  with h show ?thesis by (auto simp: list_all_iff)
qed

text \<open>
  The cluster identifier is taken from the first subject alternative name of the
  expected shape: the search returns an identifier exactly when that name is the prefix, a
  non-empty identifier and the suffix.
\<close>

lemma sanLoop_iff:
  "sanLoop sans = Inr ident \<longleftrightarrow> ident \<noteq> [] \<and>
     (\<exists>us vs. sans = us @ (apiServerSANPrefix @ ident @ apiServerSANSuffix) # vs \<and>
        (\<forall>u\<in>set us. \<not> (prefix apiServerSANPrefix u \<and> suffix apiServerSANSuffix u)))"
  (is "_ \<longleftrightarrow> _ \<and> ?R sans")
proof (induction sans)
  case (Cons san sans)
  let ?m = "prefix apiServerSANPrefix san \<and> suffix apiServerSANSuffix san"
  show ?case
  proof (cases ?m)
    case True
    then obtain p where p: "san = apiServerSANPrefix @ p" by (auto simp: prefix_def)
    from True obtain q where q: "san = q @ apiServerSANSuffix" by (auto simp: suffix_def)
    note pq = p q
    let ?hi = "length san - length apiServerSANSuffix" let ?lo = "length apiServerSANPrefix"
    have "?R (san # sans) \<longleftrightarrow> san = apiServerSANPrefix @ ident @ apiServerSANSuffix"
      using True by (auto simp: Cons_eq_append_conv)
    moreover have "sanLoop (san # sans) = Inr ident \<longleftrightarrow> ident \<noteq> [] \<and> san = apiServerSANPrefix @ ident @ apiServerSANSuffix"
    proof (cases "?hi < ?lo")
      case True
      then show ?thesis using \<open>?m\<close> by auto
    next
      case False
      have "q = apiServerSANPrefix @ drop ?lo q"
        using pq False by (metis append_eq_append_conv_if append_eq_conv_conj length_append diff_add_inverse2
            linorder_not_less append_take_drop_id)
      then obtain x where "san = apiServerSANPrefix @ x @ apiServerSANSuffix" using q by (metis append.assoc)
      then show ?thesis using \<open>?m\<close> by auto
    qed
    ultimately show ?thesis by simp
  next
    case False
    have "?R (san # sans) \<longleftrightarrow> ?R sans"
    proof
      assume "?R (san # sans)"
      then obtain us vs where us: "san # sans = us @ (apiServerSANPrefix @ ident @ apiServerSANSuffix) # vs"
        "\<forall>u\<in>set us. \<not> (prefix apiServerSANPrefix u \<and> suffix apiServerSANSuffix u)" by blast
      with False show "?R sans" by (cases us) (auto simp: suffix_def)
    next
      assume "?R sans"
      then obtain us vs where "sans = us @ (apiServerSANPrefix @ ident @ apiServerSANSuffix) # vs"
        "\<forall>u\<in>set us. \<not> (prefix apiServerSANPrefix u \<and> suffix apiServerSANSuffix u)" by blast
      with False show "?R (san # sans)" by (intro exI[of _ "san # us"] exI[of _ vs]) auto
    qed
    moreover have "sanLoop (san # sans) = sanLoop sans" using False by auto
    ultimately show ?thesis using Cons by (simp only:)
  qed
qed simp

section \<open>Witnesses\<close>

text \<open>A cluster in which the SDK makes a credential around the server name it finds in the environment.\<close>

definition toyWic :: "string \<Rightarrow> string rvalue" where
  "toyWic t = RPtr (Some (RStruct [(''cred'', RPtr (Some (RStruct [(''client'', RPtr (Some (RStruct
     [(''opts'', RStruct [(''ClientOptions'', RStruct [(''Transport'', RTransporter (Some t))])])])))])))]))"

definition toyIbLib :: "string ibLib" where
  "toyIbLib = \<lparr>ReadCAFile = Inr ''ca'', CAFileExists = True, AppendCertsFromPEM = (\<lambda>b. True),
     DialTLS = (\<lambda>ca addr. Inr [[''kubernetes'', ''hcp-kubernetes.abc.svc.cluster.local'']]),
     NewWorkloadIdentityCredential = (\<lambda>opts env. case env ''AZURE_KUBERNETES_SNI_NAME'' of
        None \<Rightarrow> Inl (External ''no server name'') | Some n \<Rightarrow> Inr (toyWic n))\<rparr>"

definition toyIbConfig :: ibConfig where
  "toyIbConfig = \<lparr>TokenProxyURL = [], SNIName = ''sni''\<rparr>"

lemma toy_transport: "fst (CreateProxyTransport toyIbLib toyIbConfig Map.empty) = Inr ''sni''"
  by (simp add: CreateProxyTransport_def toyIbConfig_def toyIbLib_def toyWic_def proxyEnv_def setenv_def
      defaultCAFile_def extractProxyTransport_def pointerField_def structField_def)

theorem CreateProxyTransport_hermetic_witness:
  "snd (CreateProxyTransport toyIbLib toyIbConfig [''AZURE_KUBERNETES_CA_FILE'' \<mapsto> ''x'']) =
   [''AZURE_KUBERNETES_CA_FILE'' \<mapsto> ''x'']"
  by (rule CreateProxyTransport_hermetic) (simp add: validEnv_def)

lemma CreateProxyTransport_env_witness:
  "\<exists>wic. NewWorkloadIdentityCredential toyIbLib throwaway
      [''AZURE_KUBERNETES_TOKEN_PROXY'' \<mapsto> ''https://kubernetes.default.svc.cluster.local'',
       ''AZURE_KUBERNETES_SNI_NAME'' \<mapsto> ''sni'', ''AZURE_KUBERNETES_CA_FILE'' \<mapsto> defaultCAFile] = Inr wic \<and>
    extractProxyTransport wic = Inr ''sni''"
proof -
  have n: "CHR 0x00 \<notin> set (TokenProxyURL toyIbConfig)" "CHR 0x00 \<notin> set (SNIName toyIbConfig)"
    by (simp_all add: toyIbConfig_def)
  have c: "TokenProxyURL toyIbConfig = []" "SNIName toyIbConfig = ''sni''" "CAFileExists toyIbLib = True"
    by (simp_all add: toyIbConfig_def toyIbLib_def)
  from CreateProxyTransport_env[OF toy_transport n] show ?thesis unfolding c if_True by auto
qed

lemma sanLoop_iff_witness:
  "sanLoop [''kubernetes'', ''hcp-kubernetes.abc.svc.cluster.local''] = Inr ''abc''"
proof -
  have "\<not> prefix apiServerSANPrefix ''kubernetes''" by (simp add: apiServerSANPrefix_def)
  then show ?thesis unfolding sanLoop_iff
    by (intro conjI exI[of _ "[''kubernetes'']"] exI[of _ "[]"]) (simp_all add: apiServerSANPrefix_def apiServerSANSuffix_def)
qed

text \<open>A name in which the prefix and the suffix overlap makes the slice bounds cross.\<close>

lemma sanLoop_overlap: "sanLoop [''hcp-kubernetes.svc.cluster.local''] = Inl (Panic ''slice bounds out of range'')"
  by (simp add: apiServerSANPrefix_def apiServerSANSuffix_def suffix_def)

end
