(* ===== verification/Startup.thy ===== *)
theory Startup
  imports Server IdentityBinding
begin

text \<open>
  \<open>cmd/main.go\<close>: the start of the process. The state of the process is its environment, its
  umask, the package variables of \<open>pkg/auth\<close> and a log of the steps that other parts of the
  system see, in their order; \<open>os.Exit\<close> and an uncaught panic end it at any point. The file
  system, the network and the cloud tables are the fields of \<open>osLib\<close>. Log lines, the JSON logger
  and klog's flags are left out. Also here: the printed version and the escaped path of the health
  endpoint, which use the JSON encoder and the URL escaping of the standard library.
\<close>

section \<open>Flags and steps\<close>

record flags =
  versionInfo :: bool
  endpoint :: string
  enableProfile :: bool
  profilePort :: int
  healthzPort :: int
  healthzPath :: string
  healthzTimeout :: int
  metricsBackend :: string
  prometheusPort :: int
  constructPEMChainFlag :: bool
  writeCertAndKeyFlag :: bool
  cloudName :: string
  tokenProxyURL :: string
  sniName :: string

definition defaultFlags :: flags where
  "defaultFlags =
     \<lparr>versionInfo = False, endpoint = ''unix:///tmp/azure.sock'', enableProfile = False, profilePort = 6060,
      healthzPort = 8989, healthzPath = ''/healthz'', healthzTimeout = 5000000000, metricsBackend = ''Prometheus'',
      prometheusPort = 8898, constructPEMChainFlag = True, writeCertAndKeyFlag = False,
      cloudName = ''AzurePublicCloud'', tokenProxyURL = [], sniName = []\<rparr>"

datatype startEvent =
    Printed string
  | Profiling string
  | Exporter exporterEffect
  | Removed string
  | Listened string string nat
  | Registered csiDriverProviderServer
  | Serving string nat
  | HealthServing healthZ
  | SignalReceived
  | GracefullyStopped

record 't process =
  procEnviron :: env
  procUmask :: nat
  procGlobals :: "'t authGlobals"
  procLog :: "startEvent list"

datatype ending = Exit int | Crashed go_error | MainReturned

record 't osLib =
  osIdentityBinding :: "'t ibLib"
  osEnvironmentFromName :: "env \<Rightarrow> string \<Rightarrow> azureEnvironment result"
  osNewExporter :: "unit result"
  osRemove :: "string \<Rightarrow> go_error option"
  osIsNotExist :: "go_error \<Rightarrow> bool"
  osListen :: "string \<Rightarrow> string \<Rightarrow> nat \<Rightarrow> string result"

text \<open>A step of the process: it ends the process or gives a value.\<close>

type_synonym ('t, 'a) step = "'t process \<Rightarrow> (ending + 'a) \<times> 't process"

definition pbind :: "('t, 'a) step \<Rightarrow> ('a \<Rightarrow> ('t, 'b) step) \<Rightarrow> ('t, 'b) step" where
  "pbind m f pr = (case m pr of (Inl e, pr') \<Rightarrow> (Inl e, pr') | (Inr x, pr') \<Rightarrow> f x pr')"

definition emit :: "startEvent list \<Rightarrow> ('t, unit) step" where
  "emit evs pr = (Inr (), pr\<lparr>procLog := procLog pr @ evs\<rparr>)"

text \<open>\<open>if err != nil { ...; os.Exit(1) }\<close>\<close>

definition orExit :: "'a result \<Rightarrow> ('t, 'a) step" where
  "orExit r pr =
     ((case r of Inl e \<Rightarrow> Inl (if is_panic e then Crashed e else Exit 1) | Inr x \<Rightarrow> Inr x), pr)"

section \<open>Version and URL\<close>

definition PrintVersion :: "buildInfo \<Rightarrow> string" where
  "PrintVersion b =
     ''{'' @ encString ''version'' @ '':'' @ encString (BuildVersion b) @ '','' @
     encString ''buildDate'' @ '':'' @ encString (BuildDate b) @ ''}'' @ [CHR 0x0A]"

definition shouldEscapePath :: "char \<Rightarrow> bool" where
  "shouldEscapePath c \<longleftrightarrow>
     c \<notin> set ''ABCDEFGHIJKLMNOPQRSTUVWXYZabcdefghijklmnopqrstuvwxyz0123456789-_.~$&+,/:;=@''"

definition upperHex :: "nat \<Rightarrow> char" where
  "upperHex n = ''0123456789ABCDEF'' ! (n mod 16)"

definition EscapedPath :: "string \<Rightarrow> string" where
  "EscapedPath path =
     (if path = ''*'' then path
      else concat (map (\<lambda>c. if shouldEscapePath c
                     then [CHR 0x25, upperHex (of_char c div 16), upperHex (of_char c)] else [c]) path))"

section \<open>The start-up sequence\<close>

definition proxyStep :: "'t osLib \<Rightarrow> flags \<Rightarrow> ('t, unit) step" where
  "proxyStep lib fl pr =
     (let (r, env) = CreateProxyTransport (osIdentityBinding lib)
            \<lparr>TokenProxyURL = tokenProxyURL fl, SNIName = sniName fl\<rparr> (procEnviron pr);
          pr' = pr\<lparr>procEnviron := env\<rparr>
      in case r of
           Inl e \<Rightarrow>
             if is_panic e then (Inl (Crashed e), pr')
             else (Inr (), pr'\<lparr>procGlobals := SetProxyTransport None (Some e) (procGlobals pr')\<rparr>)
         | Inr t \<Rightarrow> (Inr (), pr'\<lparr>procGlobals := SetProxyTransport (Some t) None (procGlobals pr')\<rparr>))"

definition cloudStep :: "'t osLib \<Rightarrow> flags \<Rightarrow> ('t, azureEnvironment) step" where
  "cloudStep lib fl pr = orExit (osEnvironmentFromName lib (procEnviron pr) (cloudName fl)) pr"

definition profileStep :: "flags \<Rightarrow> ('t, unit) step" where
  "profileStep fl = (if enableProfile fl then emit [Profiling (''localhost:'' @ showInt (profilePort fl))] else emit [])"

definition metricsStep :: "'t osLib \<Rightarrow> flags \<Rightarrow> ('t, unit) step" where
  "metricsStep lib fl =
     (let (r, effs) = InitMetricsExporter (osNewExporter lib) (metricsBackend fl) (prometheusPort fl)
      in pbind (emit (map Exporter effs)) (\<lambda>_. orExit r))"

text \<open>The address of a unix socket gets its leading slash, and an old socket is removed.\<close>

definition socketStep :: "'t osLib \<Rightarrow> string \<Rightarrow> string \<times> string \<Rightarrow> ('t, string \<times> string) step" where
  "socketStep lib goos pa =
     (let (proto, addr0) = pa in
      if proto = ''unix'' then
        (let addr = (if goos \<noteq> ''windows'' then ''/'' @ addr0 else addr0) in
         pbind (emit [Removed addr]) (\<lambda>_.
         case osRemove lib addr of
           Some e \<Rightarrow> if osIsNotExist lib e then (\<lambda>pr. (Inr (proto, addr), pr)) else orExit (Inl e)
         | None \<Rightarrow> (\<lambda>pr. (Inr (proto, addr), pr))))
      else (\<lambda>pr. (Inr (proto, addr0), pr)))"

definition setUmask :: "string \<Rightarrow> nat \<Rightarrow> ('t, nat) step" where
  "setUmask goos newMask pr =
     (if goos = ''windows'' then (Inr (Umask_windows newMask), pr)
      else (let (old, current) = Umask newMask (procUmask pr) in (Inr old, pr\<lparr>procUmask := current\<rparr>)))"

definition listenStep :: "'t osLib \<Rightarrow> string \<Rightarrow> string \<times> string \<Rightarrow> ('t, string) step" where
  "listenStep lib goos pa =
     (let (proto, addr) = pa in
      pbind (setUmask goos 63) (\<lambda>oldmask.
      pbind (\<lambda>pr. emit [Listened proto addr (procUmask pr)] pr) (\<lambda>_.
      pbind (\<lambda>pr. orExit (osListen lib proto addr (procUmask pr)) pr) (\<lambda>listener.
      pbind (setUmask goos oldmask) (\<lambda>_ pr. (Inr listener, pr))))))"

text \<open>The event of the gRPC server carries the umask in force when it starts.\<close>

definition serveStep :: "flags \<Rightarrow> azureEnvironment \<Rightarrow> string \<Rightarrow> ('t, unit) step" where
  "serveStep fl cloudEnv listener pr =
     emit [Registered (New (constructPEMChainFlag fl) (writeCertAndKeyFlag fl) cloudEnv),
           Serving listener (procUmask pr),
           HealthServing \<lparr>hzHost = '':'' @ showInt (healthzPort fl), hzEscapedPath = EscapedPath (healthzPath fl),
             UnixSocketPath = listener, RPCTimeout = healthzTimeout fl\<rparr>,
           SignalReceived, GracefullyStopped] pr"

text \<open>Everything before the server runs, up to the listener.\<close>

definition bootSteps :: "'t osLib \<Rightarrow> string \<Rightarrow> flags \<Rightarrow> ('t, azureEnvironment \<times> string) step" where
  "bootSteps lib goos fl =
     pbind (proxyStep lib fl) (\<lambda>_.
     pbind (cloudStep lib fl) (\<lambda>cloudEnv.
     pbind (profileStep fl) (\<lambda>_.
     pbind (metricsStep lib fl) (\<lambda>_.
     pbind (orExit (ParseEndpoint (endpoint fl))) (\<lambda>pa.
     pbind (socketStep lib goos pa) (\<lambda>pa'.
     pbind (listenStep lib goos pa') (\<lambda>listener pr. (Inr (cloudEnv, listener), pr))))))))"

definition mainSteps :: "'t osLib \<Rightarrow> buildInfo \<Rightarrow> flags \<Rightarrow> ('t, unit) step" where
  "mainSteps lib b fl =
     (if versionInfo fl then pbind (emit [Printed (PrintVersion b)]) (\<lambda>_ pr. (Inl (Exit 0), pr))
      else pbind (bootSteps lib (GOOS b) fl) (\<lambda>(cloudEnv, listener). serveStep fl cloudEnv listener))"

definition main :: "'t osLib \<Rightarrow> buildInfo \<Rightarrow> flags \<Rightarrow> 't process \<Rightarrow> ending \<times> 't process" where
  "main lib b fl pr =
     (case mainSteps lib b fl pr of (Inl e, pr') \<Rightarrow> (e, pr') | (Inr _, pr') \<Rightarrow> (MainReturned, pr'))"

section \<open>Facts on steps\<close>

named_theorems step_simps \<open>evaluation and inversion of steps\<close>

lemma pbind_eq_Inr [step_simps]:
  "pbind m f pr = (Inr y, pr'') \<longleftrightarrow> (\<exists>x pr'. m pr = (Inr x, pr') \<and> f x pr' = (Inr y, pr''))"
  by (auto simp: pbind_def split: prod.splits sum.splits)

lemma emit_eq [step_simps]: "emit evs pr = (r, pr') \<longleftrightarrow> r = Inr () \<and> pr' = pr\<lparr>procLog := procLog pr @ evs\<rparr>"
  by (auto simp: emit_def)

lemma orExit_eq [step_simps]: "orExit r pr = (Inr x, pr') \<longleftrightarrow> r = Inr x \<and> pr' = pr"
  by (auto simp: orExit_def split: sum.splits)

text \<open>
  What the start-up leaves untouched, whether it goes on or ends the process. The contract is
  closed under sequencing, so each step needs it only for its own effects; \<open>silent\<close> are the
  events that the relation does not see.
\<close>

locale boot_frame =
  fixes goos :: string and fl :: flags and Q :: "'t process \<Rightarrow> 't process \<Rightarrow> bool" and silent :: "startEvent \<Rightarrow> bool"
  assumes Q_refl: "Q pr pr"
    and Q_trans: "Q pr pr1 \<Longrightarrow> Q pr1 pr2 \<Longrightarrow> Q pr pr2"
    and Q_emit: "list_all silent evs \<Longrightarrow> Q pr (pr\<lparr>procLog := procLog pr @ evs\<rparr>)"
    and Q_globals: "Q pr (pr\<lparr>procGlobals := gl\<rparr>)"
    and Q_umask: "Q pr (pr\<lparr>procUmask := m\<rparr>)"
    and Q_proxy: "Q pr (pr\<lparr>procEnviron := snd (CreateProxyTransport (lib :: 't ibLib) cfg (procEnviron pr))\<rparr>)"
    and silent_profile: "enableProfile fl \<Longrightarrow> silent (Profiling (''localhost:'' @ showInt (profilePort fl)))"
    and silent_metrics: "(r, effs) = InitMetricsExporter ne (metricsBackend fl) (prometheusPort fl) \<Longrightarrow>
      eff \<in> set effs \<Longrightarrow> silent (Exporter eff)"
    and silent_removed: "silent (Removed x)"
    and silent_listen: "goos = ''windows'' \<or> m = 63 \<Longrightarrow> silent (Listened proto addr m)"
begin

definition keeps :: "('t, 'a) step \<Rightarrow> bool" where
  "keeps m \<longleftrightarrow> (\<forall>pr r pr'. m pr = (r, pr') \<longrightarrow> Q pr pr')"

lemma keeps_pbind: "keeps m \<Longrightarrow> (\<And>x. keeps (f x)) \<Longrightarrow> keeps (pbind m f)"
  unfolding keeps_def pbind_def by (fastforce split: prod.splits sum.splits intro: Q_refl Q_trans)

lemma keeps_emit: "list_all silent evs \<Longrightarrow> keeps (emit evs)"
  by (simp add: keeps_def emit_eq Q_emit)

lemma keeps_orExit: "keeps (orExit r)"
  by (auto simp: keeps_def orExit_def Q_refl)

lemma keeps_value: "keeps (\<lambda>pr. (x, pr))"
  by (simp add: keeps_def Q_refl)

lemma keeps_cloud: "keeps (cloudStep lib fl)"
  by (auto simp: keeps_def cloudStep_def orExit_def Q_refl)

lemma keeps_proxy: "keeps (proxyStep lib fl)"
  unfolding keeps_def proxyStep_def
  by (auto simp: Let_def split: prod.splits sum.splits if_splits)
    (metis Q_globals Q_proxy Q_trans snd_conv)+

lemma keeps_socket: "keeps (socketStep lib g pa)"
  by (auto simp: socketStep_def Let_def silent_removed split: prod.splits option.splits
      intro!: keeps_pbind keeps_emit keeps_value keeps_orExit)

lemma keeps_metrics: "keeps (metricsStep lib fl)"
  by (auto simp: metricsStep_def list_all_iff split: prod.splits
      intro!: keeps_pbind keeps_emit keeps_orExit intro: silent_metrics[OF sym])

lemma keeps_profile: "keeps (profileStep fl)"
  using silent_profile by (auto simp: profileStep_def intro!: keeps_emit)

lemma keeps_umask: "keeps (setUmask goos m)"
  by (auto simp: keeps_def setUmask_def Q_refl Q_umask split: prod.splits)

lemma keeps_listen: "keeps (listenStep lib goos pa)"
proof -
  have "Q pr pr'" if "listenStep lib goos pa pr = (r, pr')" for pr r pr'
  proof -
    obtain proto addr where pa: "pa = (proto, addr)" by (cases pa)
    obtain old pr1 where um: "setUmask goos 63 pr = (Inr old, pr1)"
      by (cases "goos = ''windows''") (simp_all add: setUmask_def Umask_def)
    let ?pr2 = "pr1\<lparr>procLog := procLog pr1 @ [Listened proto addr (procUmask pr1)]\<rparr>"
    have "goos = ''windows'' \<or> procUmask pr1 = 63"
      using um by (auto simp: setUmask_def Umask_def split: if_splits)
    then have "silent (Listened proto addr (procUmask pr1))" by (rule silent_listen)
    then have q2: "Q pr ?pr2"
      using um keeps_umask[of 63] Q_emit[of "[Listened proto addr (procUmask pr1)]" pr1]
      by (auto simp: keeps_def intro: Q_trans)
    from that pa um have "pr' = ?pr2 \<or> (\<exists>q. setUmask goos old ?pr2 = (q, pr'))"
      by (auto simp: listenStep_def pbind_def emit_def orExit_def split: sum.splits prod.splits)
    then show ?thesis using q2 keeps_umask[of old] by (auto simp: keeps_def intro: Q_trans)
  qed
  then show ?thesis by (simp add: keeps_def)
qed

lemma keeps_boot: "keeps (bootSteps lib goos fl)"
  unfolding bootSteps_def
  by (auto intro!: keeps_pbind keeps_proxy keeps_cloud keeps_profile keeps_metrics keeps_orExit
      keeps_socket keeps_listen keeps_value)

end

text \<open>A step that ends the process exits with status 1 or crashes.\<close>

definition badEnding :: "ending \<Rightarrow> bool" where
  "badEnding q \<longleftrightarrow> q = Exit 1 \<or> (\<exists>e. q = Crashed e)"

definition endsBadly :: "('t, 'a) step \<Rightarrow> bool" where
  "endsBadly m \<longleftrightarrow> (\<forall>pr q pr'. m pr = (Inl q, pr') \<longrightarrow> badEnding q)"

lemma endsBadly_pbind:
  assumes "endsBadly m" "\<And>x. endsBadly (f x)"
  shows "endsBadly (pbind m f)"
proof -
  have "badEnding q" if "pbind m f pr = (Inl q, pr')" for pr q pr'
  proof -
    from that have "(\<exists>t. m pr = (Inl q, t)) \<or> (\<exists>x t. m pr = (Inr x, t) \<and> f x t = (Inl q, pr'))"
      by (auto simp: pbind_def split: prod.splits sum.splits)
    then show ?thesis using assms unfolding endsBadly_def by blast
  qed
  then show ?thesis by (auto simp: endsBadly_def)
qed

lemma endsBadly_if: "endsBadly m \<Longrightarrow> endsBadly n \<Longrightarrow> endsBadly (if c then m else n)"
  by simp

lemma endsBadly_basic:
  "endsBadly (emit evs)" "endsBadly (\<lambda>pr. (Inr x, pr))" "endsBadly (\<lambda>pr. emit (g pr) pr)" "endsBadly (setUmask goos n)"
  by (auto simp: endsBadly_def emit_def setUmask_def Umask_def split: if_splits)

lemma endsBadly_orExit: "endsBadly (orExit r)" "endsBadly (\<lambda>pr. orExit (h pr) pr)"
  by (auto simp: endsBadly_def orExit_def badEnding_def split: sum.splits if_splits)

lemmas endsBadly_intros = endsBadly_pbind endsBadly_if endsBadly_basic endsBadly_orExit

lemma endsBadly_proxy: "endsBadly (proxyStep lib fl)"
  by (auto simp: endsBadly_def proxyStep_def badEnding_def Let_def split: prod.splits sum.splits if_splits)

lemma endsBadly_metrics: "endsBadly (metricsStep lib fl)"
  unfolding metricsStep_def case_prod_beta Let_def by (intro endsBadly_intros)

lemma endsBadly_listen: "endsBadly (listenStep lib goos pa)"
  unfolding listenStep_def case_prod_beta Let_def by (intro endsBadly_intros)

lemma endsBadly_socket: "endsBadly (socketStep lib goos pa)"
proof -
  have "endsBadly (pbind (emit evs) (\<lambda>_. case r of
      Some e \<Rightarrow> if osIsNotExist lib e then (\<lambda>pr. (Inr x, pr)) else orExit (Inl e) | None \<Rightarrow> (\<lambda>pr. (Inr x, pr))))"
    for evs r and x :: "string \<times> string"
    by (rule endsBadly_pbind) (auto simp: endsBadly_basic endsBadly_orExit split: option.split)
  then show ?thesis unfolding socketStep_def Let_def case_prod_beta by (intro endsBadly_if endsBadly_basic)
qed

lemmas endsBadly_steps = endsBadly_proxy endsBadly_metrics endsBadly_listen endsBadly_socket

lemma bootSteps_ending: "bootSteps lib goos fl pr = (Inl q, pr') \<Longrightarrow> badEnding q"
proof -
  have "endsBadly (bootSteps lib goos fl)"
    unfolding bootSteps_def cloudStep_def profileStep_def
    by (intro endsBadly_intros endsBadly_steps)
  then show "bootSteps lib goos fl pr = (Inl q, pr') \<Longrightarrow> badEnding q" unfolding endsBadly_def by blast
qed

section \<open>When the start-up gets through\<close>

definition transportOf :: "'t osLib \<Rightarrow> flags \<Rightarrow> env \<Rightarrow> 't result" where
  "transportOf lib fl env =
     fst (CreateProxyTransport (osIdentityBinding lib) \<lparr>TokenProxyURL = tokenProxyURL fl, SNIName = sniName fl\<rparr> env)"

definition bootGlobals :: "'t result \<Rightarrow> 't authGlobals \<Rightarrow> 't authGlobals" where
  "bootGlobals r g = (case r of Inl e \<Rightarrow> SetProxyTransport None (Some e) g | Inr t \<Rightarrow> SetProxyTransport (Some t) None g)"

lemma proxyStep_Inr [step_simps]:
  assumes "validEnv (procEnviron pr)"
  shows "proxyStep lib fl pr = (Inr u, pr') \<longleftrightarrow>
    (\<forall>p. transportOf lib fl (procEnviron pr) \<noteq> Inl (Panic p)) \<and>
    pr' = pr\<lparr>procGlobals := bootGlobals (transportOf lib fl (procEnviron pr)) (procGlobals pr)\<rparr>"
proof -
  let ?cfg = "\<lparr>TokenProxyURL = tokenProxyURL fl, SNIName = sniName fl\<rparr>"
  obtain r where r: "CreateProxyTransport (osIdentityBinding lib) ?cfg (procEnviron pr) = (r, procEnviron pr)"
    using CreateProxyTransport_restores[OF assms] by (metis prod.collapse)
  show ?thesis
  proof (cases r)
    case (Inl e)
    with r show ?thesis by (cases e) (auto simp: proxyStep_def transportOf_def bootGlobals_def)
  qed (use r in \<open>auto simp: proxyStep_def transportOf_def bootGlobals_def\<close>)
qed

lemma cloudStep_Inr [step_simps]:
  "cloudStep lib fl pr = (Inr x, pr') \<longleftrightarrow> osEnvironmentFromName lib (procEnviron pr) (cloudName fl) = Inr x \<and> pr' = pr"
  by (auto simp: cloudStep_def orExit_eq)

lemma log_same: "\<exists>evs. pr = pr\<lparr>procLog := procLog pr @ evs\<rparr>"
  by (rule exI[of _ "[]"]) simp

lemma profileStep_log: "\<exists>evs. profileStep fl pr = (Inr (), pr\<lparr>procLog := procLog pr @ evs\<rparr>)"
  by (auto simp: profileStep_def emit_def log_same)

lemma metricsStep_Inr:
  "(\<exists>pr'. metricsStep lib fl pr = (Inr u, pr')) \<longleftrightarrow> ToLower (metricsBackend fl) = ''prometheus'' \<and> osNewExporter lib = Inr ()"
  "metricsStep lib fl pr = (Inr u, pr') \<Longrightarrow> \<exists>evs. pr' = pr\<lparr>procLog := procLog pr @ evs\<rparr>"
  by (auto simp: metricsStep_def InitMetricsExporter_def initPrometheusExporter_def Let_def pbind_def emit_def
      orExit_def split: sum.splits if_splits)

lemma socketStep_Inr:
  assumes "goos \<noteq> ''windows''"
  shows "(\<exists>pr'. socketStep lib goos (proto, addr0) pr = (Inr pa, pr')) \<longleftrightarrow>
      pa = (proto, if proto = ''unix'' then ''/'' @ addr0 else addr0) \<and>
      (proto = ''unix'' \<longrightarrow> (case osRemove lib (''/'' @ addr0) of None \<Rightarrow> True | Some e \<Rightarrow> osIsNotExist lib e))"
    "socketStep lib goos (proto, addr0) pr = (Inr pa, pr') \<Longrightarrow> \<exists>evs. pr' = pr\<lparr>procLog := procLog pr @ evs\<rparr>"
  using assms
  by (auto simp: socketStep_def Let_def pbind_def emit_def orExit_def log_same split: option.splits if_splits)

lemma setUmask_unix:
  "goos \<noteq> ''windows'' \<Longrightarrow> setUmask goos m pr = (Inr (procUmask pr), pr\<lparr>procUmask := m mod 512\<rparr>)"
  by (simp add: setUmask_def Umask_def)

lemma listenStep_Inr [step_simps]:
  assumes "goos \<noteq> ''windows''"
  shows "listenStep lib goos (proto, addr) pr = (Inr l, pr') \<longleftrightarrow>
    osListen lib proto addr 63 = Inr l \<and>
    pr' = pr\<lparr>procUmask := procUmask pr mod 512, procLog := procLog pr @ [Listened proto addr 63]\<rparr>"
  using assms by (auto simp: listenStep_def pbind_def setUmask_unix emit_def orExit_def split: sum.splits)

text \<open>The conditions under which the process gets as far as serving.\<close>

definition bootable :: "'t osLib \<Rightarrow> flags \<Rightarrow> env \<Rightarrow> azureEnvironment \<Rightarrow> string \<Rightarrow> bool" where
  "bootable lib fl env cloudEnv l \<longleftrightarrow>
     (\<forall>p. transportOf lib fl env \<noteq> Inl (Panic p)) \<and>
     osEnvironmentFromName lib env (cloudName fl) = Inr cloudEnv \<and>
     ToLower (metricsBackend fl) = ''prometheus'' \<and> osNewExporter lib = Inr () \<and>
     (\<exists>proto addr0. ParseEndpoint (endpoint fl) = Inr (proto, addr0) \<and>
        (proto = ''unix'' \<longrightarrow> (case osRemove lib (''/'' @ addr0) of None \<Rightarrow> True | Some e \<Rightarrow> osIsNotExist lib e)) \<and>
        osListen lib proto (if proto = ''unix'' then ''/'' @ addr0 else addr0) 63 = Inr l)"

lemma bootSteps_result:
  assumes "bootSteps lib goos fl pr = (Inr (cloudEnv, l), pr')" "validEnv (procEnviron pr)" "goos \<noteq> ''windows''"
  shows "bootable lib fl (procEnviron pr) cloudEnv l"
    and "procGlobals pr' = bootGlobals (transportOf lib fl (procEnviron pr)) (procGlobals pr)"
    and "procUmask pr' = procUmask pr mod 512" "procEnviron pr' = procEnviron pr"
proof -
  let ?pr1 = "pr\<lparr>procGlobals := bootGlobals (transportOf lib fl (procEnviron pr)) (procGlobals pr)\<rparr>"
  from assms obtain pr2 pr3 proto addr0 pa pr4 where
    t: "\<forall>p. transportOf lib fl (procEnviron pr) \<noteq> Inl (Panic p)" and
    c: "osEnvironmentFromName lib (procEnviron pr) (cloudName fl) = Inr cloudEnv" and
    p2: "profileStep fl ?pr1 = (Inr (), pr2)" and p3: "metricsStep lib fl pr2 = (Inr (), pr3)" and
    ep: "ParseEndpoint (endpoint fl) = Inr (proto, addr0)" and
    so: "socketStep lib goos (proto, addr0) pr3 = (Inr pa, pr4)" and
    li: "listenStep lib goos pa pr4 = (Inr l, pr')"
    by (auto simp: bootSteps_def step_simps)
  have pa: "pa = (proto, if proto = ''unix'' then ''/'' @ addr0 else addr0)"
    and rm: "proto = ''unix'' \<longrightarrow> (case osRemove lib (''/'' @ addr0) of None \<Rightarrow> True | Some e \<Rightarrow> osIsNotExist lib e)"
    using socketStep_Inr(1)[OF assms(3), of lib proto addr0 pr3 pa] so by blast+
  note l = li[unfolded pa listenStep_Inr[OF assms(3)]]
  have m: "ToLower (metricsBackend fl) = ''prometheus''" "osNewExporter lib = Inr ()"
    using metricsStep_Inr(1)[of lib fl pr2 "()"] p3 by blast+
  show "bootable lib fl (procEnviron pr) cloudEnv l"
    unfolding bootable_def using t c m ep rm l by blast
  obtain e2 e3 e4 where "pr2 = ?pr1\<lparr>procLog := e2\<rparr>" "pr3 = pr2\<lparr>procLog := e3\<rparr>" "pr4 = pr3\<lparr>procLog := e4\<rparr>"
    using p2 profileStep_log[of fl ?pr1] metricsStep_Inr(2)[OF p3] socketStep_Inr(2)[OF assms(3) so] by auto
  with l show "procGlobals pr' = bootGlobals (transportOf lib fl (procEnviron pr)) (procGlobals pr)"
    "procUmask pr' = procUmask pr mod 512" "procEnviron pr' = procEnviron pr" by auto
qed

lemma bootSteps_works:
  assumes "bootable lib fl (procEnviron pr) cloudEnv l" "validEnv (procEnviron pr)" "goos \<noteq> ''windows''"
  shows "\<exists>pr'. bootSteps lib goos fl pr = (Inr (cloudEnv, l), pr')"
proof -
  let ?pr1 = "pr\<lparr>procGlobals := bootGlobals (transportOf lib fl (procEnviron pr)) (procGlobals pr)\<rparr>"
  from assms(1) obtain proto addr0 where b: "\<forall>p. transportOf lib fl (procEnviron pr) \<noteq> Inl (Panic p)"
    "osEnvironmentFromName lib (procEnviron pr) (cloudName fl) = Inr cloudEnv"
    "ToLower (metricsBackend fl) = ''prometheus''" "osNewExporter lib = Inr ()"
    "ParseEndpoint (endpoint fl) = Inr (proto, addr0)"
    "proto = ''unix'' \<longrightarrow> (case osRemove lib (''/'' @ addr0) of None \<Rightarrow> True | Some e \<Rightarrow> osIsNotExist lib e)"
    "osListen lib proto (if proto = ''unix'' then ''/'' @ addr0 else addr0) 63 = Inr l"
    unfolding bootable_def by blast
  let ?pa = "(proto, if proto = ''unix'' then ''/'' @ addr0 else addr0)"
  obtain pr2 where p2: "profileStep fl ?pr1 = (Inr (), pr2)" using profileStep_log[of fl ?pr1] by blast
  obtain pr3 where p3: "metricsStep lib fl pr2 = (Inr (), pr3)" using metricsStep_Inr(1)[of lib fl pr2 "()"] b by blast
  obtain pr4 where p4: "socketStep lib goos (proto, addr0) pr3 = (Inr ?pa, pr4)"
    using socketStep_Inr(1)[OF assms(3), of lib proto addr0 pr3 ?pa] b by blast
  obtain pr5 where p5: "listenStep lib goos ?pa pr4 = (Inr l, pr5)" using listenStep_Inr[OF assms(3)] b by blast
  have p1: "proxyStep lib fl pr = (Inr (), ?pr1)" using proxyStep_Inr[OF assms(2)] b(1) by blast
  have c: "cloudStep lib fl ?pr1 = (Inr cloudEnv, ?pr1)" using b(2) by (simp add: cloudStep_Inr)
  show ?thesis unfolding bootSteps_def using p1 c p2 p3 p4 p5 b(5) by (simp add: pbind_def orExit_def)
qed

lemma main_returned:
  "main lib b fl pr = (MainReturned, pr') \<longleftrightarrow>
     \<not> versionInfo fl \<and> (\<exists>cloudEnv l pr1. bootSteps lib (GOOS b) fl pr = (Inr (cloudEnv, l), pr1) \<and>
       serveStep fl cloudEnv l pr1 = (Inr (), pr'))"
proof -
  have ne: "q \<noteq> MainReturned" if "bootSteps lib (GOOS b) fl pr = (Inl q, pr1)" for q pr1
    using bootSteps_ending[OF that] by (auto simp: badEnding_def)
  show ?thesis
    by (cases "bootSteps lib (GOOS b) fl pr"; cases "fst (bootSteps lib (GOOS b) fl pr)")
      (auto simp: main_def mainSteps_def pbind_def emit_def serveStep_def dest: ne)
qed

section \<open>The frames of the start-up\<close>

definition environKept :: "'t process \<Rightarrow> 't process \<Rightarrow> bool" where
  "environKept pr pr' \<longleftrightarrow> (validEnv (procEnviron pr) \<longrightarrow> procEnviron pr' = procEnviron pr)"

text \<open>
  The events of a start-up that has not come to its servers: the profiling server and the server
  of the metrics exporter are started on the way, at their configured addresses only.
\<close>

definition beforeServing :: "flags \<Rightarrow> startEvent \<Rightarrow> bool" where
  "beforeServing fl e =
     (case e of
        Printed _ \<Rightarrow> True
      | Profiling a \<Rightarrow> enableProfile fl \<and> a = ''localhost:'' @ showInt (profilePort fl)
      | Exporter eff \<Rightarrow>
          ToLower (metricsBackend fl) = ''prometheus'' \<and>
          (\<forall>a. eff = ListenAndServe a \<longrightarrow> a = '':'' @ showInt (prometheusPort fl))
      | Removed _ \<Rightarrow> True
      | Listened _ _ _ \<Rightarrow> True
      | _ \<Rightarrow> False)"

lemma exporter_address:
  "(r, effs) = InitMetricsExporter ne mb port \<Longrightarrow> eff \<in> set effs \<Longrightarrow>
   ToLower mb = ''prometheus'' \<and> (\<forall>a. eff = ListenAndServe a \<longrightarrow> a = '':'' @ showInt port)"
  by (auto simp: InitMetricsExporter_def initPrometheusExporter_def Let_def split: if_splits sum.splits)

definition quietLog :: "(startEvent \<Rightarrow> bool) \<Rightarrow> 't process \<Rightarrow> 't process \<Rightarrow> bool" where
  "quietLog silent pr pr' \<longleftrightarrow> (\<exists>evs. procLog pr' = procLog pr @ evs \<and> list_all silent evs)"

lemma quietLog_facts:
  "quietLog silent pr pr" "quietLog silent pr pr1 \<Longrightarrow> quietLog silent pr1 pr2 \<Longrightarrow> quietLog silent pr pr2"
  "procLog pr' = procLog pr \<Longrightarrow> quietLog silent pr pr'"
  by (fastforce simp: quietLog_def)+

interpretation bootEnviron: boot_frame goos fl environKept "\<lambda>_. True" for goos fl
  by unfold_locales (auto simp: environKept_def CreateProxyTransport_restores)

interpretation bootQuiet: boot_frame goos fl "quietLog (beforeServing fl)" "beforeServing fl" for goos fl
  by unfold_locales
    (auto simp: beforeServing_def quietLog_facts intro: quietLog_facts(2) dest: exporter_address simp: quietLog_def)

definition maskedListen :: "string \<Rightarrow> startEvent \<Rightarrow> bool" where
  "maskedListen goos e \<longleftrightarrow> (\<forall>proto addr m. e = Listened proto addr m \<longrightarrow> goos = ''windows'' \<or> m = 63)"

interpretation bootMasked: boot_frame goos fl "quietLog (maskedListen goos)" "maskedListen goos" for goos fl
  by unfold_locales (auto simp: maskedListen_def quietLog_facts intro: quietLog_facts(2) simp: quietLog_def)

lemma bootSteps_frames:
  assumes "bootSteps lib goos fl pr = (r, pr')"
  shows "environKept pr pr'" "quietLog (beforeServing fl) pr pr'" "quietLog (maskedListen goos) pr pr'"
proof -
  note frames = bootEnviron.keeps_boot bootQuiet.keeps_boot bootMasked.keeps_boot
  show "environKept pr pr'" "quietLog (beforeServing fl) pr pr'" "quietLog (maskedListen goos) pr pr'"
    using frames(1)[unfolded bootEnviron.keeps_def] frames(2)[unfolded bootQuiet.keeps_def]
      frames(3)[unfolded bootMasked.keeps_def] assms by blast+
qed

lemma bootSteps_events:
  assumes "bootSteps lib goos fl pr = (r, pr')" "procLog pr = []" "e \<in> set (procLog pr')"
  shows "beforeServing fl e" "maskedListen goos e"
  using bootSteps_frames(2,3)[OF assms(1)] assms(2,3) by (auto simp: quietLog_def list_all_iff)

lemma bootSteps_masked:
  assumes "bootSteps lib goos fl pr = (r, pr')" "procLog pr = []" "goos \<noteq> ''windows''"
  shows "Listened proto addr m \<in> set (procLog pr') \<Longrightarrow> m = 63" "Serving l m \<notin> set (procLog pr')"
  using bootSteps_events[OF assms(1,2)] assms(3) unfolding maskedListen_def beforeServing_def by fastforce+

text \<open>What ends the process early is an exit with status 1 or a panic, and leaves the frames.\<close>

lemma main_split:
  assumes "main lib b fl pr = (q, pr')"
  obtains (version) "versionInfo fl" "q = Exit 0" "pr' = pr\<lparr>procLog := procLog pr @ [Printed (PrintVersion b)]\<rparr>"
  | (ended) "\<not> versionInfo fl" "bootSteps lib (GOOS b) fl pr = (Inl q, pr')" "q \<noteq> MainReturned"
  | (served) cloudEnv l pr1 where "\<not> versionInfo fl" "bootSteps lib (GOOS b) fl pr = (Inr (cloudEnv, l), pr1)"
      "q = MainReturned" "serveStep fl cloudEnv l pr1 = (Inr (), pr')"
proof (cases "versionInfo fl")
  case True
  with assms version show ?thesis by (auto simp: main_def mainSteps_def pbind_def emit_def)
next
  case False
  show ?thesis
  proof (cases "bootSteps lib (GOOS b) fl pr")
    case (Pair r pr1)
    show ?thesis
    proof (cases r)
      case (Inl e)
      with False Pair assms have "q = e" "pr' = pr1" by (auto simp: main_def mainSteps_def pbind_def)
      with ended False Pair Inl bootSteps_ending[of lib "GOOS b" fl pr e pr1] show ?thesis by (auto simp: badEnding_def)
    next
      case (Inr x)
      obtain cloudEnv l where x: "x = (cloudEnv, l)" by (cases x)
      with False Pair Inr assms have "q = MainReturned" "serveStep fl cloudEnv l pr1 = (Inr (), pr')"
        by (auto simp: main_def mainSteps_def pbind_def serveStep_def emit_def)
      with served False Pair Inr x show ?thesis by blast
    qed
  qed
qed

section \<open>Properties\<close>

text \<open>
  Property C19. The process gets to serving, and ends only with a signal, exactly when the version
  was not asked for, the cloud name is known, the metrics backend is Prometheus and its exporter
  could be made, the endpoint is well formed, an old socket could be removed or was not there, and
  the listener could be made under the restrictive umask. A failure to make the transport of
  identity binding does not stop it.
\<close>

theorem main_returns_iff:
  assumes "validEnv (procEnviron pr)" "GOOS b \<noteq> ''windows''"
  shows "fst (main lib b fl pr) = MainReturned \<longleftrightarrow>
    \<not> versionInfo fl \<and>
    (\<forall>p. fst (CreateProxyTransport (osIdentityBinding lib)
            \<lparr>TokenProxyURL = tokenProxyURL fl, SNIName = sniName fl\<rparr> (procEnviron pr)) \<noteq> Inl (Panic p)) \<and>
    (\<exists>cloudEnv. osEnvironmentFromName lib (procEnviron pr) (cloudName fl) = Inr cloudEnv) \<and>
    ToLower (metricsBackend fl) = ''prometheus'' \<and> osNewExporter lib = Inr () \<and>
    (\<exists>proto addr0 l. ParseEndpoint (endpoint fl) = Inr (proto, addr0) \<and>
       (proto = ''unix'' \<longrightarrow> (case osRemove lib (''/'' @ addr0) of None \<Rightarrow> True | Some e \<Rightarrow> osIsNotExist lib e)) \<and>
       osListen lib proto (if proto = ''unix'' then ''/'' @ addr0 else addr0) 63 = Inr l)"
    (is "_ \<longleftrightarrow> ?R")
proof -
  have R: "?R \<longleftrightarrow> \<not> versionInfo fl \<and> (\<exists>cloudEnv l. bootable lib fl (procEnviron pr) cloudEnv l)"
    unfolding bootable_def transportOf_def by blast
  show ?thesis unfolding R
  proof
    assume "fst (main lib b fl pr) = MainReturned"
    then obtain pr' where "main lib b fl pr = (MainReturned, pr')" by (metis prod.collapse)
    then show "\<not> versionInfo fl \<and> (\<exists>cloudEnv l. bootable lib fl (procEnviron pr) cloudEnv l)"
      unfolding main_returned using bootSteps_result(1)[OF _ assms] by blast
  next
    assume "\<not> versionInfo fl \<and> (\<exists>cloudEnv l. bootable lib fl (procEnviron pr) cloudEnv l)"
    then obtain cloudEnv l pr1 where "\<not> versionInfo fl" "bootSteps lib (GOOS b) fl pr = (Inr (cloudEnv, l), pr1)"
      using bootSteps_works[OF _ assms] by blast
    moreover obtain pr' where "serveStep fl cloudEnv l pr1 = (Inr (), pr')" by (simp add: serveStep_def emit_def)
    ultimately show "fst (main lib b fl pr) = MainReturned" using main_returned[of lib b fl pr pr'] by auto
  qed
qed

text \<open>
  Property C20. A start-up that fails serves no mounts: if the process ends with an exit status or
  a panic, no CSI provider was registered and neither the gRPC server nor the health server was
  started. The only servers it can have started are the profiling server, when it is enabled and on
  the local address of its flag, and the server of the metrics exporter, for the Prometheus backend
  and on the port of its flag. The process environment is unchanged on every path.
\<close>

theorem main_failure_serves_no_mounts:
  assumes "main lib b fl pr = (q, pr')" "procLog pr = []" "validEnv (procEnviron pr)"
  shows "procEnviron pr' = procEnviron pr \<and>
    (q \<noteq> MainReturned \<longrightarrow>
       (\<forall>s l m h. Registered s \<notin> set (procLog pr') \<and> Serving l m \<notin> set (procLog pr') \<and>
          HealthServing h \<notin> set (procLog pr')) \<and>
       (\<forall>a. Profiling a \<in> set (procLog pr') \<longrightarrow>
          enableProfile fl \<and> a = ''localhost:'' @ showInt (profilePort fl)) \<and>
       (\<forall>a. Exporter (ListenAndServe a) \<in> set (procLog pr') \<longrightarrow>
          ToLower (metricsBackend fl) = ''prometheus'' \<and> a = '':'' @ showInt (prometheusPort fl)))"
  using assms(1)
proof (cases rule: main_split)
  case version
  then show ?thesis using assms(2) by simp
next
  case ended
  then show ?thesis using bootSteps_frames(1)[OF ended(2)] assms(3)
    by (auto simp: environKept_def beforeServing_def dest!: bootSteps_events(1)[OF ended(2) assms(2)])
next
  case (served cloudEnv l pr1)
  with bootSteps_frames(1)[OF served(2)] assms(3) show ?thesis by (auto simp: environKept_def serveStep_def emit_def)
qed

text \<open>
  Property C17. The socket is made for its owner only, and nothing else of the process runs
  under that umask: whenever the process listens, it does so under the umask 0077, whatever the
  umask was before; when the gRPC server is started, the umask in force is the original one again;
  and a process that ends with a signal has started its server and still has the original umask.
\<close>

theorem main_umask:
  assumes "main lib b fl pr = (q, pr')" "procLog pr = []" "GOOS b \<noteq> ''windows''"
    and "validEnv (procEnviron pr)" "procUmask pr < 512"
  shows "(\<forall>proto addr m. Listened proto addr m \<in> set (procLog pr') \<longrightarrow> m = 63) \<and>
    (\<forall>l m. Serving l m \<in> set (procLog pr') \<longrightarrow> m = procUmask pr) \<and>
    (q = MainReturned \<longrightarrow> procUmask pr' = procUmask pr \<and> (\<exists>l. Serving l (procUmask pr) \<in> set (procLog pr')))"
  using assms(1)
proof (cases rule: main_split)
  case version
  then show ?thesis using assms(2) by simp
next
  case ended
  then show ?thesis using bootSteps_masked[OF ended(2) assms(2,3)] by blast
next
  case (served cloudEnv l pr1)
  have "procUmask pr1 = procUmask pr" using bootSteps_result(3)[OF served(2) assms(4,3)] assms(5) by simp
  then show ?thesis using bootSteps_masked[OF served(2) assms(2,3)] served(4)
    by (auto simp: serveStep_def emit_def)
qed

text \<open>
  Property C21. The errors of identity binding are lazy and confined to it: when the transport could
  not be made at start-up, the server still serves, and every credential of the identity binding
  mode fails with the error of the start-up, while no other mode looks at it.
\<close>

theorem main_lazy_identityBinding:
  assumes "main lib b fl pr = (MainReturned, pr')" "GOOS b \<noteq> ''windows''" "validEnv (procEnviron pr)"
    and "fst (CreateProxyTransport (osIdentityBinding lib)
            \<lparr>TokenProxyURL = tokenProxyURL fl, SNIName = sniName fl\<rparr> (procEnviron pr)) = Inl e"
  shows "GetCredential sdk (procGlobals pr') c pod ns res aad tenant port =
    (if cfgIdentityMode c = IdentityModeAzureTokenProxy
     then Inl (if cfgWorkloadIdentityClientID c = [] \<or> cfgServiceAccountToken c = [] then errBindingFields
               else wrapf ''proxy transport not available: %w'' [] e)
     else GetCredential sdk g c pod ns res aad tenant port)"
proof -
  from assms(1) obtain cloudEnv l pr1 where boot: "bootSteps lib (GOOS b) fl pr = (Inr (cloudEnv, l), pr1)"
    and serve: "serveStep fl cloudEnv l pr1 = (Inr (), pr')" unfolding main_returned by blast
  have "procGlobals pr' = bootGlobals (Inl e) (procGlobals pr)"
    using bootSteps_result(2)[OF boot assms(3,2)] serve assms(4) by (auto simp: transportOf_def serveStep_def emit_def)
  then have "proxyTransportErr (procGlobals pr') = Some e" by (simp add: bootGlobals_def SetProxyTransport_def)
  then show ?thesis
    by (cases "cfgIdentityMode c") (simp_all add: GetCredential_def getIdentityBindingTokenCredential_def)
qed

section \<open>Witnesses\<close>

definition toyOs :: "string osLib" where
  "toyOs = \<lparr>osIdentityBinding = toyIbLib\<lparr>NewWorkloadIdentityCredential := (\<lambda>opts env. Inl (External ''no proxy''))\<rparr>,
     osEnvironmentFromName = (\<lambda>env n. if n = ''AzurePublicCloud'' then Inr (defaultCloudEnvironment toyProvider) else Inl (External ''unknown'')),
     osNewExporter = Inr (), osRemove = (\<lambda>a. Some (External ''no such file'')), osIsNotExist = (\<lambda>e. e = External ''no such file''),
     osListen = (\<lambda>proto addr m. if proto = ''unix'' \<and> m = 63 then Inr addr else Inl (External ''listen''))\<rparr>"

definition toyFlags :: flags where
  "toyFlags = defaultFlags\<lparr>sniName := ''sni''\<rparr>"

definition toyProcess :: "string process" where
  "toyProcess = \<lparr>procEnviron = Map.empty, procUmask = 18, procGlobals = \<lparr>proxyTransport = None, proxyTransportErr = None\<rparr>, procLog = []\<rparr>"

lemma toy_boot:
  "validEnv (procEnviron toyProcess)" "GOOS toyBuild \<noteq> ''windows''" "procLog toyProcess = []" "procUmask toyProcess < 512"
  by (simp_all add: toyProcess_def toyBuild_def validEnv_def)

lemma toy_transport_fails:
  "fst (CreateProxyTransport (osIdentityBinding toyOs) \<lparr>TokenProxyURL = tokenProxyURL toyFlags, SNIName = sniName toyFlags\<rparr>
     (procEnviron toyProcess)) =
   Inl (Wrapf ''create throwaway credential for proxy transport extraction: %w'' [] (External ''no proxy''))"
  by (simp add: CreateProxyTransport_def toyOs_def toyFlags_def defaultFlags_def toyIbLib_def wrapf_def)

lemma toy_endpoint: "ParseEndpoint (endpoint toyFlags) = Inr (''unix'', ''/tmp/azure.sock'')"
  by code_simp

lemma toy_main: obtains pr' where "main toyOs toyBuild toyFlags toyProcess = (MainReturned, pr')"
proof -
  have "ToLower (metricsBackend toyFlags) = ''prometheus''" by code_simp
  then have "bootable toyOs toyFlags (procEnviron toyProcess) (defaultCloudEnvironment toyProvider) ''//tmp/azure.sock''"
    using toy_transport_fails toy_endpoint
    by (simp add: bootable_def transportOf_def) (simp add: toyOs_def toyFlags_def defaultFlags_def)
  from bootSteps_works[OF this toy_boot(1,2)] obtain pr1 where
    "bootSteps toyOs (GOOS toyBuild) toyFlags toyProcess = (Inr (defaultCloudEnvironment toyProvider, ''//tmp/azure.sock''), pr1)" by blast
  then have "\<exists>pr'. main toyOs toyBuild toyFlags toyProcess = (MainReturned, pr')"
    unfolding main_returned by (simp add: serveStep_def emit_def toyFlags_def defaultFlags_def)
  then show thesis using that by blast
qed

theorem main_returns_iff_witness: "\<exists>l. osListen toyOs ''unix'' ''//tmp/azure.sock'' 63 = Inr l"
proof -
  obtain pr' where "main toyOs toyBuild toyFlags toyProcess = (MainReturned, pr')" by (rule toy_main)
  then have "fst (main toyOs toyBuild toyFlags toyProcess) = MainReturned" by simp
  with main_returns_iff[OF toy_boot(1,2), of toyOs toyFlags] toy_endpoint show ?thesis by auto
qed

text \<open>A start with profiling that fails late: the endpoint is well formed, but the listener cannot be made.\<close>

definition tcpFlags :: flags where
  "tcpFlags = toyFlags\<lparr>endpoint := ''tcp://:10000'', enableProfile := True\<rparr>"

lemma tcp_fails: "fst (main toyOs toyBuild tcpFlags toyProcess) \<noteq> MainReturned"
proof
  assume "fst (main toyOs toyBuild tcpFlags toyProcess) = MainReturned"
  then obtain pr' where "main toyOs toyBuild tcpFlags toyProcess = (MainReturned, pr')" by (metis prod.collapse)
  then obtain cloudEnv l pr1 where "bootSteps toyOs (GOOS toyBuild) tcpFlags toyProcess = (Inr (cloudEnv, l), pr1)"
    unfolding main_returned by blast
  from bootSteps_result(1)[OF this toy_boot(1,2)] have "bootable toyOs tcpFlags (procEnviron toyProcess) cloudEnv l" .
  moreover have "ParseEndpoint (endpoint tcpFlags) = Inr (''tcp'', '':10000'')" by code_simp
  ultimately show False by (simp add: bootable_def) (simp add: toyOs_def)
qed

theorem main_failure_serves_no_mounts_witness:
  "fst (main toyOs toyBuild tcpFlags toyProcess) \<noteq> MainReturned \<and>
   (\<forall>l m. Serving l m \<notin> set (procLog (snd (main toyOs toyBuild tcpFlags toyProcess)))) \<and>
   procEnviron (snd (main toyOs toyBuild tcpFlags toyProcess)) = procEnviron toyProcess"
proof -
  obtain q pr' where m: "main toyOs toyBuild tcpFlags toyProcess = (q, pr')" by (metis prod.collapse)
  from main_failure_serves_no_mounts[OF m toy_boot(3,1)] m tcp_fails show ?thesis by simp
qed

theorem main_umask_witness:
  "\<exists>pr' l. main toyOs toyBuild toyFlags toyProcess = (MainReturned, pr') \<and> procUmask pr' = 18 \<and>
     Serving l 18 \<in> set (procLog pr')"
proof -
  obtain pr' where m: "main toyOs toyBuild toyFlags toyProcess = (MainReturned, pr')" by (rule toy_main)
  from main_umask[OF m toy_boot(3,2,1,4)] m show ?thesis by (simp add: toyProcess_def)
qed

theorem main_lazy_identityBinding_witness:
  "\<exists>pr'. main toyOs toyBuild toyFlags toyProcess = (MainReturned, pr') \<and>
     isl (GetCredential toySdk (procGlobals pr')
       \<lparr>cfgIdentityMode = IdentityModeAzureTokenProxy, cfgUserAssignedIdentityID = [], cfgAADClientSecret = [], cfgAADClientID = [],
        cfgWorkloadIdentityClientID = ''cid'', cfgServiceAccountToken = ''tok''\<rparr> ''p'' ''n'' ''r'' ''aad'' ''t'' ''2579'')"
proof -
  obtain pr' where m: "main toyOs toyBuild toyFlags toyProcess = (MainReturned, pr')" by (rule toy_main)
  let ?c = "\<lparr>cfgIdentityMode = IdentityModeAzureTokenProxy, cfgUserAssignedIdentityID = [], cfgAADClientSecret = [], cfgAADClientID = [],
        cfgWorkloadIdentityClientID = ''cid'', cfgServiceAccountToken = ''tok''\<rparr>"
  have "isl (GetCredential toySdk (procGlobals pr') ?c ''p'' ''n'' ''r'' ''aad'' ''t'' ''2579'')"
    using main_lazy_identityBinding[OF m toy_boot(2,1) toy_transport_fails,
        of toySdk ?c "''p''" "''n''" "''r''" "''aad''" "''t''" "''2579''" toyGlobals] by simp
  with m show ?thesis by blast
qed

end
