(* ===== verification/Robust.thy ===== *)
theory Robust
  imports Server
begin

text \<open>
  Requests cannot take the process down. A result is calm when it is not a panic; the rules for
  the combinators of the prelude carry this through the whole of the mount operation, down to the
  operations of the outside packages. What the code relies on there, that they return and that a
  bundle of the vault has the fields that the code dereferences, are the predicates of the first
  section. The calls of the SDK ask the credential for a token; the credential of pod identity is
  the code's own, so its \<open>GetToken\<close> is not assumed to return but proved to, for an NMI server
  that answers with an object.
\<close>

section \<open>What the code relies on\<close>

definition calm :: "'a result \<Rightarrow> bool" where
  "calm r \<longleftrightarrow> (case r of Inl e \<Rightarrow> \<not> is_panic e | Inr _ \<Rightarrow> True)"

definition calmS :: "('s, 'a) io \<Rightarrow> bool" where
  "calmS m \<longleftrightarrow> (\<forall>s. calm (fst (m s)))"

text \<open>A secret that backs a certificate has a content type.\<close>

definition completeSecret :: "secretBundle \<Rightarrow> bool" where
  "completeSecret b \<longleftrightarrow> sbKid b = None \<or> sbKid b = Some [] \<or> sbContentType b \<noteq> None"

text \<open>A key has a type, and one on an elliptic curve names the curve.\<close>

definition completeKey :: "keyBundle \<Rightarrow> bool" where
  "completeKey b \<longleftrightarrow>
     (case kbKey b of
        None \<Rightarrow> True
      | Some key \<Rightarrow> jwkKty key \<noteq> None \<and>
          (jwkKty key = Some ''EC'' \<or> jwkKty key = Some ''EC-HSM'' \<longrightarrow> jwkCrv key \<noteq> None))"

text \<open>A successful result satisfies \<open>P\<close>, and a failure is an error.\<close>

definition gives :: "('a \<Rightarrow> bool) \<Rightarrow> 'a result \<Rightarrow> bool" where
  "gives P r \<longleftrightarrow> (case r of Inl e \<Rightarrow> \<not> is_panic e | Inr x \<Rightarrow> P x)"

text \<open>
  The NMI server of pod identity: requests return, and the body of an answer with status 200 is
  not the JSON text \<open>null\<close>, which the code would dereference.
\<close>

definition documentedNmi :: "nmiLib \<Rightarrow> bool" where
  "documentedNmi nmi \<longleftrightarrow>
     (\<forall>u. calm (NewRequest nmi u)) \<and>
     (\<forall>req. gives (\<lambda>resp. gives (\<lambda>b. httpStatusCode resp = 200 \<longrightarrow> parseJson b \<noteq> Some JNull) (httpBody resp))
        (DoRequest nmi req))"

text \<open>
  What a credential does when the SDK asks it for a token. For pod identity this is
  \<open>podIdentityCredential.GetToken\<close>; the others hand the question on to \<open>azidentity\<close>.
\<close>

definition tokenCalm :: "nmiLib \<Rightarrow> 'c tokenCredential \<Rightarrow> bool" where
  "tokenCalm nmi cred = (case cred of PodIdentityCred c \<Rightarrow> calm (podIdentityGetToken nmi c) | _ \<Rightarrow> True)"

text \<open>
  The service. A client made with a credential whose \<open>GetToken\<close> does not panic is sound, and so
  are its pagers; of the calls of a sound client it is documented that they return, that what they
  return is complete, and that each page of a listing leaves fewer pages. Nothing is said of the
  calls of a client that is not sound.
\<close>

definition documentedVault ::
  "('v, 'cred, 'h) kvSdk \<Rightarrow> ('cred \<Rightarrow> bool) \<Rightarrow> ('h \<Rightarrow> bool) \<Rightarrow> ('h \<Rightarrow> 'v \<Rightarrow> nat) \<Rightarrow> bool" where
  "documentedVault sdk tokens sound remaining \<longleftrightarrow>
     (\<forall>u c. tokens c \<longrightarrow> gives sound (NewSecretsClient sdk u c) \<and> gives sound (NewKeysClient sdk u c) \<and>
        gives sound (NewCertificatesClient sdk u c)) \<and>
     (\<forall>h n ver v. sound h \<longrightarrow> gives completeSecret (fst (SdkGetSecret sdk h n ver v))) \<and>
     (\<forall>h n ver v. sound h \<longrightarrow> gives completeKey (fst (SdkGetKey sdk h n ver v))) \<and>
     (\<forall>h n ver v. sound h \<longrightarrow> calm (fst (SdkGetCertificate sdk h n ver v))) \<and>
     (\<forall>h n. sound h \<longrightarrow> sound (NewListSecretVersionsPager sdk h n) \<and> sound (NewListKeyVersionsPager sdk h n) \<and>
        sound (NewListCertificateVersionsPager sdk h n)) \<and>
     (\<forall>p v. sound p \<longrightarrow> More sdk p \<longrightarrow> gives (list_all wellFormedItem) (fst (NextPage sdk p v))) \<and>
     (\<forall>p v items p' v'. sound p \<longrightarrow> More sdk p \<longrightarrow> NextPage sdk p v = (Inr items, p', v') \<longrightarrow>
        sound p' \<and> remaining p' v' < remaining p v)"

definition soundClient :: "('h \<Rightarrow> bool) \<Rightarrow> 'h kvClient \<Rightarrow> bool" where
  "soundClient sound c \<longleftrightarrow> sound (secretsClient c) \<and> sound (keysClient c) \<and> sound (certsClient c)"

definition calmCrypto :: "'k cryptoLib \<Rightarrow> bool" where
  "calmCrypto lib \<longleftrightarrow>
     (\<forall>b. calm (ToPEM lib b)) \<and> (\<forall>k. calm (MarshalPKCS8PrivateKey lib k)) \<and> (\<forall>b. calm (ParseCertificate lib b))"

definition calmIdentity :: "('t, 'c) azidentity \<Rightarrow> bool" where
  "calmIdentity sdk \<longleftrightarrow>
     (\<forall>t c a opts. calm (NewClientAssertionCredential sdk t c a opts)) \<and>
     (\<forall>t c s h. calm (NewClientSecretCredential sdk t c s h)) \<and>
     (\<forall>i. calm (NewManagedIdentityCredential sdk i))"

definition calmDeps ::
  "('v, 't, 'c, 'h, 'k) deps \<Rightarrow> nmiLib \<Rightarrow> ('h \<Rightarrow> bool) \<Rightarrow> ('h \<Rightarrow> 'v \<Rightarrow> nat) \<Rightarrow> bool" where
  "calmDeps d nmi sound remaining \<longleftrightarrow>
     documentedVault (depSdk d) (tokenCalm nmi) sound remaining \<and> documentedNmi nmi \<and> calmIdentity (depIdentity d) \<and> calmCrypto (depCrypto d) \<and>
     (\<forall>env n. calm (depEnvironmentFromName d env n)) \<and>
     (\<forall>s. calm (depUnmarshalArray d s)) \<and> (\<forall>s. calm (depUnmarshalObject d s))"

text \<open>The error that a failed transport left at start-up is an error value.\<close>

definition calmGlobals :: "'t authGlobals \<Rightarrow> bool" where
  "calmGlobals g \<longleftrightarrow> (case proxyTransportErr g of None \<Rightarrow> True | Some e \<Rightarrow> \<not> is_panic e)"

lemma documentedVaultD:
  assumes "documentedVault sdk tokens sound remaining"
  shows "tokens c \<Longrightarrow> gives sound (NewSecretsClient sdk u c)" "tokens c \<Longrightarrow> gives sound (NewKeysClient sdk u c)"
    "tokens c \<Longrightarrow> gives sound (NewCertificatesClient sdk u c)"
    "sound h \<Longrightarrow> gives completeSecret (fst (SdkGetSecret sdk h n ver v))"
    "sound h \<Longrightarrow> gives completeKey (fst (SdkGetKey sdk h n ver v))"
    "sound h \<Longrightarrow> calm (fst (SdkGetCertificate sdk h n ver v))"
    "sound p \<Longrightarrow> More sdk p \<Longrightarrow> gives (list_all wellFormedItem) (fst (NextPage sdk p v))"
    "sound p \<Longrightarrow> More sdk p \<Longrightarrow> NextPage sdk p v = (Inr items, p', v') \<Longrightarrow> sound p' \<and> remaining p' v' < remaining p v"
    "sound h \<Longrightarrow> sound (NewListSecretVersionsPager sdk h n) \<and> sound (NewListKeyVersionsPager sdk h n) \<and>
       sound (NewListCertificateVersionsPager sdk h n)"
  using assms by (simp_all add: documentedVault_def)

section \<open>Rules\<close>

named_theorems calm_intros \<open>rules that carry calm through the combinators\<close>

lemma calm_simps [simp]: "calm (Inl e) \<longleftrightarrow> \<not> is_panic e" "calm (Inr x)"
  by (simp_all add: calm_def)

lemma wrapKv_is_panic [simp]: "is_panic (wrapKv kv e) = is_panic e"
  by (simp add: wrapKv_def wrapObjectTypeError_def)

lemma calm_wrapf [simp]: "calm (wrapErr (wrapf fmt args) m) = calm m"
  by (cases m) auto

lemma calm_wrapKv [simp]: "calm (wrapErr (wrapKv kv) m) = calm m"
  by (cases m) auto

lemma calm_guardE [simp]: "\<not> is_panic e \<Longrightarrow> calm (guardE ok e)"
  by (cases ok) auto

lemma calm_rbind [calm_intros]: "calm m \<Longrightarrow> (\<And>x. m = Inr x \<Longrightarrow> calm (f x)) \<Longrightarrow> calm (rbind m f)"
  by (cases m) auto

lemma calm_mapE [calm_intros]: "(\<And>x. calm (f x)) \<Longrightarrow> calm (mapE f xs)"
  by (induction xs) (auto split: sum.splits, metis calm_simps(1))

lemma calm_foldE [calm_intros]: "(\<And>a x. calm (f a x)) \<Longrightarrow> calm (foldE f a xs)"
  by (induction xs arbitrary: a) (auto split: sum.splits, metis calm_simps(1))

lemma gives_rbind: "gives P m \<Longrightarrow> (\<And>x. P x \<Longrightarrow> gives Q (f x)) \<Longrightarrow> gives Q (rbind m f)"
  by (cases m) (auto simp: gives_def)

lemma gives_wrapErr: "gives P (wrapErr (wrapf fmt args) m) = gives P m"
  by (cases m) (auto simp: gives_def)

lemma calm_gives: "calm r \<Longrightarrow> gives (\<lambda>_. True) r"
  by (simp add: gives_def calm_def)

lemma gives_calm: "gives P r \<Longrightarrow> calm r"
  by (simp add: gives_def calm_def split: sum.splits)

lemma givesD: "gives P r \<Longrightarrow> r = Inr x \<Longrightarrow> P x"
  by (simp add: gives_def)

lemma calmS_sbind_slift: "calm r \<Longrightarrow> (\<And>x. r = Inr x \<Longrightarrow> calmS (f x)) \<Longrightarrow> calmS (sbind (slift r) f)"
  by (cases r) (auto simp: calmS_def sbind_def slift_def)

lemma calmS_slift [calm_intros]: "calm r \<Longrightarrow> calmS (slift r)"
  by (simp add: calmS_def slift_def)

lemma calmS_sreturn [calm_intros]: "calmS (sreturn x)"
  by (simp add: calmS_def sreturn_def)

lemma calmS_sbind [calm_intros]: "calmS m \<Longrightarrow> (\<And>x. calmS (f x)) \<Longrightarrow> calmS (sbind m f)"
  unfolding calmS_def by (auto simp: sbind_def split: prod.splits sum.splits) (metis calm_simps(1) fst_conv)

lemma calmS_mapS [calm_intros]:
  assumes "\<And>x. calmS (f x)"
  shows "calmS (mapS f xs)"
  unfolding calmS_def
proof
  show "calm (fst (mapS f xs s))" for s
  proof (induction xs arbitrary: s)
    case (Cons x xs)
    obtain r s1 where r: "f x s = (r, s1)" by fastforce
    have "calm r" using assms[of x] r unfolding calmS_def by (metis fst_conv)
    with r Cons[of s1] show ?case by (auto split: sum.splits prod.splits)
  qed simp
qed

lemma calmS_onVault [calm_intros]: "calmS m \<Longrightarrow> calmS (onVault m)"
  by (simp add: calmS_def onVault_result)

lemma calmS_reportRequest [calm_intros]: "calmS m \<Longrightarrow> calmS (reportRequest kv m)"
  by (simp add: calmS_def reportRequest_result)

section \<open>Decoders and checks\<close>

lemmas json_errors = jsonSyntaxError_def jsonTypeError_def

lemma calm_stringField [simp]: "calm (stringField old v)"
  by (cases "(old, v)" rule: stringField.cases) (auto simp: json_errors)

lemma calm_timeField [simp]: "calm (timeField old v)"
  by (cases "(old, v)" rule: timeField.cases) (auto split: option.splits)

lemma calm_structValue [calm_intros]:
  assumes "\<And>s kv. calm (member s kv)"
  shows "calm (structValue member old v)"
  by (cases "(member, old, v)" rule: structValue.cases) (auto simp: json_errors intro!: calm_intros assms)

lemma calm_saTokenMember [simp]: "calm (saTokenMember t kv)"
  by (auto simp: saTokenMember_def split: option.splits intro!: calm_intros)

lemma calm_unmarshalTokens [simp]: "calm (unmarshalTokens s)"
  unfolding unmarshalTokens_def
  by (auto simp: json_errors split: option.splits json.splits intro!: calm_intros)

text \<open>The answer of the NMI server: every body decodes or is refused, and only null gives nil.\<close>

lemma calm_numberField [simp]: "calm (numberField old v)"
  by (cases "(old, v)" rule: numberField.cases) (auto simp: json_errors)

lemma calm_tokenMember [simp]: "calm (tokenMember t kv)"
  unfolding tokenMember_def by (cases "fieldOf [''access_token'', ''refresh_token'', ''expires_in'', ''expires_on'', ''not_before'', ''resource'', ''token_type'']
             (fst kv)") (simp_all add: calm_rbind)

lemma calm_responseMember [simp]: "calm (responseMember r kv)"
  unfolding responseMember_def by (auto split: option.splits intro!: calm_intros)

lemma gives_unmarshalPodIdentityResponse:
  assumes "parseJson b \<noteq> Some JNull"
  shows "gives (\<lambda>r. r \<noteq> None) (unmarshalPodIdentityResponse b)"
proof -
  have "gives (\<lambda>r. r \<noteq> None) (rbind (structValue responseMember old v) (\<lambda>r. Inr (Some r)))" for old v
    by (rule gives_rbind[where P = "\<lambda>_. True"]) (intro calm_gives calm_structValue calm_responseMember, simp add: gives_def)
  moreover have "gives P (Inl jsonSyntaxError)" for P :: "podIdentityResponse option \<Rightarrow> bool"
    by (simp add: gives_def json_errors)
  ultimately show ?thesis using assms unfolding unmarshalPodIdentityResponse_def
    by (simp split: option.split json.split del: structValue.simps)
qed

text \<open>So the code's own \<open>GetToken\<close> returns a token or an error.\<close>

lemma calm_podIdentityGetToken:
  assumes "documentedNmi nmi"
  shows "calm (podIdentityGetToken nmi c)"
proof -
  let ?answer = "\<lambda>resp. gives (\<lambda>b. httpStatusCode resp = 200 \<longrightarrow> parseJson b \<noteq> Some JNull) (httpBody resp)"
  have n: "calm (NewRequest nmi u)" "gives ?answer (DoRequest nmi req)" for u req
    using assms unfolding documentedNmi_def by blast+
  show ?thesis unfolding podIdentityGetToken_def Let_def
  proof (intro calm_rbind n(1) gives_calm[OF n(2)])
    fix resp assume "DoRequest nmi (\<lparr>httpURL = ''http://localhost:'' @ picNmiPort c @ ''/host/token/?resource='' @ picResource c,
            httpHeader = [(podNamespaceHeader, picPodNamespace c), (podNameHeader, picPodName c)]\<rparr>) = Inr resp"
    then have resp: "?answer resp" by (rule givesD[OF n(2)])
    then show "calm (httpBody resp)" by (rule gives_calm)
    fix b assume "httpBody resp = Inr b"
    then have ok: "httpStatusCode resp = 200 \<longrightarrow> parseJson b \<noteq> Some JNull" by (rule givesD[OF resp])
    have "calm (rbind (unmarshalPodIdentityResponse b) f)" if "httpStatusCode resp = 200" "\<And>x. calm (f (Some x))" for f :: "_ \<Rightarrow> accessToken result"
      using gives_unmarshalPodIdentityResponse[of b] ok that
      by (cases "unmarshalPodIdentityResponse b") (auto simp: gives_def)
    then show "calm (if httpStatusCode resp \<noteq> 200
      then Inl (Errorf ''nmi response failed with status code: %d, response body: %+v''
                  [showInt (httpStatusCode resp), b])
      else rbind (unmarshalPodIdentityResponse b) (\<lambda>r.
        case r of
          None \<Rightarrow> Inl (Panic ''nil pointer dereference'')
        | Some podIdentityResponse \<Rightarrow>
            (if AccessToken (pirToken podIdentityResponse) = [] \<or> pirClientID podIdentityResponse = []
             then Inl (Errorf ''nmi did not return expected values in response: token and clientid'' [])
             else Inr \<lparr>atToken = AccessToken (pirToken podIdentityResponse),
               atExpiresOn = Expires nmi (pirToken podIdentityResponse)\<rparr>)))" by simp
  qed
qed

lemma tokenCalm_documented: "documentedNmi nmi \<Longrightarrow> tokenCalm nmi cred"
  by (simp add: tokenCalm_def calm_podIdentityGetToken split: tokenCredential.splits)

lemma calm_base64 [simp]: "calm (base64_DecodeString s)"
  by (simp add: base64_DecodeString_def split: option.splits)

lemma calm_hex [simp]: "calm (hex_DecodeString s)"
  by (induction s rule: hex_DecodeString.induct) (auto split: option.splits sum.splits, blast)

lemma calm_validate [simp]: "calm (validate kv)"
  unfolding validate_def validateObjectFormat_def validateObjectEncoding_def validateFileName_def
  by (auto simp: errDotDot_def intro!: calm_intros)

lemma calm_getContentBytes [simp]: "calm (getContentBytes c ty enc)"
  by (simp add: getContentBytes_def)

lemma calm_MarshalPKIX [simp]: "calm (MarshalPKIXPublicKey k)"
  by (cases k) auto

lemma calm_getCurve [simp]: "calm (getCurve c)"
  by (simp add: getCurve_def)

section \<open>Certificates\<close>

lemma calm_parseNodes: "(\<And>b. calm (parse b)) \<Longrightarrow> calm (parseNodes parse data nodes)"
proof (induction parse data nodes rule: parseNodes.induct)
  case (1 parse data nodes)
  have "calm (rbind (parse b) certOf)" for b
    by (intro calm_intros 1(2)) (simp add: certOf_def split: option.splits)
  then show ?case using 1
    by (subst parseNodes.simps) (auto split: option.splits sum.splits prod.splits, metis calm_simps(1))
qed

lemma calm_chainWalk [simp]: "calm (chainWalk nodes processed leaf chain)"
  by (induction nodes processed leaf chain rule: chainWalk.induct) (auto simp: errCycle_def)

lemma calm_fetchCertChains: "(\<And>b. calm (parse b)) \<Longrightarrow> calm (fetchCertChains parse data)"
  unfolding fetchCertChains_def
  by (auto simp: Let_def errCycle_def split: option.splits intro!: calm_intros calm_parseNodes)

lemma calm_parsePrivateKey [simp]: "calm (parsePrivateKey lib b)"
  by (simp add: parsePrivateKey_def errParseKey_def split: sum.splits)

lemma calm_decodePKCS12: "calmCrypto lib \<Longrightarrow> calm (decodePKCS12 lib chain val)"
  unfolding decodePKCS12_def pkcs12Step_def calmCrypto_def
  by (auto simp: Let_def case_prod_beta intro!: calm_intros calm_fetchCertChains)

section \<open>The vault\<close>

text \<open>Listing ends, and with well-formed pages it ends with versions or with the error of a page.\<close>

lemma calm_pageStep:
  assumes "gives (list_all wellFormedItem) p"
  shows "calm (pageStep idVersion versions p)"
proof (cases p)
  case (Inr items)
  with assms have "pageStep idVersion versions p =
      Inr (versions @ concat (map (\<lambda>i. enabledVersion idVersion (the i)) items))"
    by (auto simp: gives_def list_all_iff intro!: pageStep_wellFormed)
  then show ?thesis by simp
qed (use assms in \<open>auto simp: gives_def pageStep_def\<close>)

lemma calm_pagerLoop:
  assumes "documentedVault sdk tokens sound remaining" "sound pager"
  shows "\<exists>r v'. pagerLoop sdk idVersion pager acc v = Some (r, v') \<and> calm r"
  using assms(2)
proof (induction "remaining pager v" arbitrary: pager acc v rule: less_induct)
  case less
  obtain page pager' v' where n: "NextPage sdk pager v = (page, pager', v')" by (cases "NextPage sdk pager v")
  show ?case
  proof (cases "More sdk pager")
    case True
    then have c: "calm (pageStep idVersion acc page)"
      using documentedVaultD(7)[OF assms(1) less.prems True, of v] n by (intro calm_pageStep) simp
    show ?thesis
    proof (cases "pageStep idVersion acc page")
      case (Inl e)
      with True n c show ?thesis by (subst pagerLoop.simps) auto
    next
      case (Inr acc')
      then obtain items where "page = Inr items" by (auto simp: pageStep_def result_simps)
      then have "sound pager'" "remaining pager' v' < remaining pager v"
        using documentedVaultD(8)[OF assms(1) less.prems True] n by blast+
      from less.hyps[OF this(2,1), of acc'] show ?thesis using True n Inr by (subst pagerLoop.simps) simp
    qed
  qed (subst pagerLoop.simps, simp)
qed

lemma calmS_orNoReturn:
  assumes "documentedVault sdk tokens sound remaining" "sound pager"
  shows "calmS (\<lambda>v. orNoReturn v (pagerLoop sdk idVersion pager [] v))"
  unfolding calmS_def
proof
  fix v
  obtain r v' where "pagerLoop sdk idVersion pager [] v = Some (r, v')" "calm r"
    using calm_pagerLoop[OF assms] by blast
  then show "calm (fst (orNoReturn v (pagerLoop sdk idVersion pager [] v)))" by (simp add: orNoReturn_def)
qed

lemma calmS_versions:
  assumes "documentedVault sdk tokens sound remaining" "soundClient sound c"
  shows "calmS (getKeyVaultObjectVersions sdk c kv)"
  unfolding getKeyVaultObjectVersions_def getSecretVersions_def getKeyVersions_def getCertificateVersions_def
    GetSecretVersions_def[abs_def] GetKeyVersions_def[abs_def] GetCertificateVersions_def[abs_def]
  using calmS_orNoReturn[OF assms(1)] documentedVaultD(9)[OF assms(1)] assms(2)
  by (auto simp: errObjectType_def soundClient_def intro!: calm_intros)

lemma calm_secretObjects:
  assumes "calmCrypto lib" "completeSecret b"
  shows "calm (secretObjects lib idVersion p kv b)"
  using assms calm_decodePKCS12[OF assms(1)]
  unfolding secretObjects_def certSecretContent_def completeSecret_def
  by (auto simp: Let_def split: option.splits intro!: calm_intros)

lemma calm_keyObjects:
  assumes "completeKey b"
  shows "calm (keyObjects lib idVersion kv b)"
  using assms unfolding keyObjects_def jwkPublicKey_def completeKey_def
  by (auto split: option.splits intro!: calm_intros)

lemma calm_certObjects [simp]: "calm (certObjects idVersion b)"
  by (simp add: certObjects_def split: option.splits)

lemma calmS_request:
  assumes "\<And>v. gives P (fst (m v))" "\<And>b. P b \<Longrightarrow> calm (f b)"
  shows "calmS (\<lambda>v. case m v of (Inl e, v') \<Rightarrow> (Inl (wrapKv kv e), v') | (Inr b, v') \<Rightarrow> (f b, v'))"
  unfolding calmS_def
proof
  fix v
  obtain r v' where m: "m v = (r, v')" by fastforce
  show "calm (fst (case m v of (Inl e, v') \<Rightarrow> (Inl (wrapKv kv e), v') | (Inr b, v') \<Rightarrow> (f b, v')))"
    using assms(1)[of v] assms(2) m by (cases r) (auto simp: gives_def)
qed

lemma calmS_content:
  assumes "documentedVault sdk tokens sound remaining" "calmCrypto lib" "soundClient sound c"
  shows "calmS (getKeyVaultObjectContent sdk lib p c kv)"
proof -
  have r: "gives completeSecret (fst (GetSecret sdk c n ver v))" "gives completeKey (fst (GetKey sdk c n ver v))"
    "gives (\<lambda>_. True) (fst (GetCertificate sdk c n ver v))" for n ver v
    using assms(3) by (simp_all add: GetSecret_def GetKey_def GetCertificate_def documentedVaultD[OF assms(1)]
        calm_gives soundClient_def)
  have "calmS (getSecret sdk lib p c kv)" unfolding getSecret_def[abs_def]
    by (rule calmS_request[OF r(1)]) (rule calm_secretObjects[OF assms(2)])
  moreover have "calmS (getKey sdk lib c kv)" unfolding getKey_def[abs_def]
    by (rule calmS_request[OF r(2)]) (rule calm_keyObjects)
  moreover have "calmS (getCertificate sdk c kv)" unfolding getCertificate_def[abs_def]
    by (rule calmS_request[OF r(3)]) simp
  ultimately show ?thesis unfolding getKeyVaultObjectContent_def
    by (auto simp: errObjectType_def intro!: calm_intros)
qed

section \<open>The mount operation\<close>

lemma calm_readParameters [simp]: "calm (readParameters attrib)"
proof -
  have "calm (GetUsePodIdentity attrib)" "calm (GetUseVMManagedIdentity attrib)" "calm (GetUseAzureTokenProxy attrib)"
    by (auto simp: GetUsePodIdentity_def GetUseVMManagedIdentity_def GetUseAzureTokenProxy_def ParseBool_def Let_def)
  moreover have "calm (selectIdentityMode a b c)" for a b c
    by (simp add: selectIdentityMode_def errModes_def Let_def)
  ultimately show ?thesis unfolding readParameters_def by (auto intro!: calm_intros)
qed

lemma calm_buildAuthConfig [simp]: "calm (buildAuthConfig unmarshalTokens input)"
proof -
  have "calm (parseTokenForAudience unmarshalTokens s a)" for s a
    unfolding parseTokenForAudience_def ErrServiceAccountTokensNotFound_def
    by (auto split: option.splits intro!: calm_intros)
  moreover have "calm (NewConfig m u c t s)" for m u c t s
    unfolding NewConfig_def getCredential_def
    by (auto simp: Let_def case_prod_beta split: option.splits intro!: calm_intros)
  ultimately show ?thesis
    unfolding buildAuthConfig_def ParseIdentityBindingToken_def ParseServiceAccountToken_def
    by (auto intro!: calm_intros)
qed

lemma calmS_buildMount:
  assumes "\<And>env n. calm (depEnvironmentFromName d env n)"
  shows "calmS (buildMount d p attrib secrets mode)"
proof -
  have "calmS (setAzureEnvironmentFilePath f)" for f
    by (simp add: setAzureEnvironmentFilePath_def calmS_def sreturn_def Setenv_def)
  then have "calmS (\<lambda>w. case setAzureEnvironmentFilePath f w of (r, w') \<Rightarrow> (wrapErr (wrapf fmt args) r, w'))"
    for f fmt args by (simp add: calmS_def case_prod_beta)
  moreover have "calmS (\<lambda>w. (wrapErr (wrapf fmt args)
      (parseAzureEnvironment (depEnvironmentFromName d) p (environ w) n), w))" for fmt args n
    using assms by (simp add: calmS_def parseAzureEnvironment_def)
  ultimately show ?thesis unfolding buildMount_def by (auto intro!: calm_intros)
qed

lemma calm_parseObjects:
  assumes "\<And>s. calm (depUnmarshalArray d s)" "\<And>s. calm (depUnmarshalObject d s)"
  shows "calm (parseObjects d attrib)"
  using assms unfolding parseObjects_def parseObject_def GetObjectsArray_def
  by (auto simp: Let_def case_prod_beta intro!: calm_intros)

lemma calm_getPodIdentityTokenCredential [simp]: "calm (getPodIdentityTokenCredential n ns res t port)"
  by (simp add: getPodIdentityTokenCredential_def errPodInformation_def)

lemma calm_GetCredential:
  assumes "calmIdentity sdk" "calmGlobals g"
  shows "calm (GetCredential sdk g c podName podNamespace resource aadEndpoint tenantID nmiPort)"
proof -
  have w: "calm (newWorkloadIdentityCredential sdk t i a opts)" for t i a opts
    using assms(1) by (simp add: newWorkloadIdentityCredential_def calmIdentity_def calm_rbind)
  have "calm (getManagedIdentityTokenCredential sdk i)" "calm (getServicePrincipalTokenCredential sdk i s h t)"
    for i s h t using assms(1)
    by (simp_all add: getManagedIdentityTokenCredential_def getServicePrincipalTokenCredential_def calmIdentity_def calm_rbind)
  moreover have "calm (getIdentityBindingTokenCredential sdk g i a h t)" for i a h t
    using assms(2) w
    by (simp add: getIdentityBindingTokenCredential_def calmGlobals_def errTransportNotInitialized_def split: option.splits)
  moreover have "calm (getWorkloadIdentityTokenCredential sdk i a h t)" for i a h t
    using w by (simp add: getWorkloadIdentityTokenCredential_def)
  ultimately show ?thesis
    by (cases "cfgIdentityMode c") (simp_all add: GetCredential_def errBindingFields_def errNoIdentityMode_def)
qed

text \<open>A client that could be made holds a credential whose token requests return, so it is sound.\<close>

lemma gives_openVault:
  assumes "calmDeps d nmi sound remaining" "calmGlobals g"
  shows "gives (soundClient sound) (openVault d g mc)"
proof -
  have d: "documentedVault (depSdk d) (tokenCalm nmi) sound remaining" "documentedNmi nmi"
    "calmIdentity (depIdentity d)" using assms(1) by (simp_all add: calmDeps_def)
  have "gives (soundClient sound) (NewClient (depSdk d) cred u)" for cred u
    unfolding NewClient_def
    by (intro gives_rbind[where P = sound] documentedVaultD(1,2,3)[OF d(1)] tokenCalm_documented d(2))
      (simp add: gives_def soundClient_def)
  then have "gives (soundClient sound) (initializeKvClient d g mc u)" for u
    unfolding initializeKvClient_def Let_def
    by (intro gives_rbind[where P = "\<lambda>_. True"] calm_gives calm_GetCredential d(3) assms(2))
  moreover have "gives (\<lambda>_. True) (getVaultURL mc)"
    by (rule calm_gives) (simp add: getVaultURL_def Let_def)
  ultimately show ?thesis unfolding openVault_def
    by (intro gives_rbind[where P = "\<lambda>_. True"]) (simp_all add: gives_wrapErr)
qed

lemma calmS_fetchFiles:
  assumes "\<And>kv. calmS (resolve kv)" "\<And>kv. calmS (fetch kv)"
  shows "calmS (fetchFiles resolve fetch perm kvs)"
  using assms unfolding fetchFiles_def fetchObject_def fetchResolved_def fileOf_def
  by (auto intro!: calm_intros)

lemma calmS_mount:
  assumes "calmDeps d nmi sound remaining" "calmGlobals g"
  shows "calmS (GetSecretsStoreObjectContent d g p attrib secrets perm)"
proof -
  have d: "documentedVault (depSdk d) (tokenCalm nmi) sound remaining" "calmCrypto (depCrypto d)"
    using assms(1) unfolding calmDeps_def by blast+
  note opens = gives_openVault[OF assms]
  have "calmS (resolveObjectVersions (depSdk d) sortf c kv)" if "soundClient sound c" for sortf c kv
    unfolding resolveObjectVersions_def by (auto intro!: calm_intros calmS_versions[OF d(1) that])
  then have fetch: "calmS (fetchFiles (resolveObjectVersions (depSdk d) sortf c)
      (getKeyVaultObjectContent (depSdk d) (depCrypto d) p c) perm kvs)" if "soundClient sound c" for sortf c kvs
    using that by (intro calmS_fetchFiles calmS_content[OF d])
  have "calmS (sbind (slift (openVault d g mc)) (\<lambda>c. fetchFiles (resolveObjectVersions (depSdk d) (depSort d) c)
      (getKeyVaultObjectContent (depSdk d) (depCrypto d) p c) perm kvs))" for mc kvs
    by (rule calmS_sbind_slift) (auto intro: gives_calm[OF opens] fetch givesD[OF opens])
  then show ?thesis
    unfolding GetSecretsStoreObjectContent_def
    using assms by (auto simp: calmDeps_def intro!: calm_intros calmS_buildMount calm_parseObjects)
qed

section \<open>The server\<close>

text \<open>A handler of the mount operation that is calm answers every request, also with an error.\<close>

lemma Mount_answers:
  assumes "calmDeps d nmi sound remaining" "calmGlobals g"
  obtains resp err w' where "Mount d g order s req w = (Inr (resp, err), w')"
    and "\<And>e. err = Some e \<Longrightarrow> \<not> is_panic e"
proof -
  obtain r w' where m: "Mount d g order s req w = (r, w')" by fastforce
  then show thesis
  proof (cases rule: Mount_cases)
    case (refused fmt e)
    with m show thesis by (intro that) auto
  next
    case (ran attrib secret perm q)
    have "calm q" using calmS_mount[OF assms] ran(4) unfolding calmS_def by (metis fst_conv)
    with ran(5) m show thesis
      by (cases q) (auto simp: mountFails_def intro!: that)
  qed
qed

lemma calm_handle:
  assumes "calmDeps d nmi sound remaining" "calmGlobals g"
  shows "calm (fst (handle d g s b q w))"
proof (cases q)
  case (RpcMount req order)
  obtain resp err w' where "Mount d g order s req w = (Inr (resp, err), w')"
    and "\<And>e. err = Some e \<Longrightarrow> \<not> is_panic e"
    using Mount_answers[OF assms] by blast
  with RpcMount show ?thesis by (cases err) (auto simp: clientView_def)
qed (auto simp: clientView_def Version_def Check_def List_def unimplemented_def)

section \<open>Properties\<close>

text \<open>
  Property C3. No request takes the server down: after any run, over any requests whatever their
  texts are, the server answers any next request, with a response or with an error. What it takes:
  the outside packages return a value or an error and do not panic; the calls of the Key Vault SDK do so
  for a client whose credential does when it is asked for a token, its listings are finite and its
  bundles have the fields that the code dereferences; the NMI server of pod identity does not answer
  200 with the body null; the transport error kept from the start-up, if any, is an error
  value; and the metrics instruments can be made. The token request of pod identity, which is the
  code's own, is part of what is shown to return.
\<close>

theorem server_answers:
  assumes "calmDeps d nmi sound remaining" "calmGlobals g" "\<And>n. mkInstrument n = None"
    and "served (providerService d g s b fullMethod mkInstrument statusOf) s0 tr s1"
  shows "\<exists>r s2. served (providerService d g s b fullMethod mkInstrument statusOf) s0 (tr @ [(q, r)]) s2"
proof -
  let ?svc = "providerService d g s b fullMethod mkInstrument statusOf"
  obtain r w' where h: "handle d g s b q (fst s1) = (r, w')" by fastforce
  then have "calm r" using calm_handle[OF assms(1,2)] by (metis fst_conv)
  then have c: "case r of Inl e \<Rightarrow> \<not> is_panic e | Inr _ \<Rightarrow> True" by (simp add: calm_def)
  have "\<exists>s2. intercepted ?svc q s1 = (r, s2)"
    using assms(3) h c by (cases s1; cases r)
      (auto simp: intercepted_def LogInterceptor_def NewStatsReporter_def providerService_def case_prod_beta)
  with served_request[OF assms(4) _ c] show ?thesis by blast
qed

section \<open>Witnesses\<close>

text \<open>
  The services of the witnesses of the mount operation, and a mount request whose texts are not
  even JSON, after a run with a successful mount.
\<close>

definition toyNmi :: nmiLib where
  "toyNmi = \<lparr>NewRequest = (\<lambda>u. Inr ()),
     DoRequest = (\<lambda>r. Inr \<lparr>httpStatusCode = 200, httpBody = Inr ''{}''\<rparr>),
     ParseFloat = (\<lambda>s. Inl (External ''syntax'')), NewUnixTimeFromSeconds = (\<lambda>s. 0)\<rparr>"

lemma toyNmi_documented: "documentedNmi toyNmi"
proof -
  have "parseJson ''{}'' \<noteq> Some JNull" by code_simp
  then show ?thesis by (simp add: documentedNmi_def toyNmi_def gives_def)
qed

lemma toyDeps_calm: "calmDeps (toyDeps []) toyNmi (\<lambda>h. True) (\<lambda>p v. p)"
proof -
  have "gives (list_all wellFormedItem) (toyPages ! (2 - p))" if "0 < p" for p
  proof -
    have "2 - p = 0 \<or> 2 - p = 1" using that by arith
    then show ?thesis by (auto simp: gives_def toyPages_def toyItem_def wellFormedItem_def)
  qed
  then have "documentedVault (depSdk (toyDeps [])) (tokenCalm toyNmi) (\<lambda>h. True) (\<lambda>p v. p)"
    unfolding documentedVault_def
    by (auto simp: toyDeps_def toyKvSdk_def toyGetSecret_def gives_def[of completeSecret] gives_def[of completeKey]
        gives_def[of "\<lambda>h. True"] completeSecret_def)
  moreover have "calmIdentity (depIdentity (toyDeps []))" "calmCrypto (depCrypto (toyDeps []))"
    by (auto simp: calmIdentity_def calmCrypto_def toyDeps_def toySdk_def toyLib_def toyParse_def split: option.splits)
  ultimately show ?thesis by (simp add: calmDeps_def toyNmi_documented) (simp add: toyDeps_def)
qed

definition garbageRequest :: mountRequest where
  "garbageRequest = \<lparr>reqAttributes = ''{'', reqSecrets = ''x'', reqPermission = []\<rparr>"

theorem server_answers_witness:
  "\<exists>r s2. served toyService (toyWorld, []) (toyTrace @ [(RpcMount garbageRequest id, r)]) s2"
proof -
  obtain s1 where "served toyService (toyWorld, []) toyTrace s1" by (rule toy_served)
  then show ?thesis unfolding toyService_def
    by (intro server_answers[OF toyDeps_calm]) (auto simp: calmGlobals_def toyGlobals_def SetProxyTransport_def)
qed

end
