(* ===== verification/Rotation.thy ===== *)
theory Rotation
  imports Server
begin

text \<open>
  Rotation: the driver repeats the mount of a running pod and compares the object versions of the
  response with those it has. Two facts make this work, and both compare two runs of the mount
  operation. On a vault that did not change, the second run gives the result of the first,
  errors included, although the first run has changed the process environment and the reports.
  And when two runs report the same versions, they have the same files, whatever happened to the
  vault in between, as long as the vault never changes what a version holds.
\<close>

section \<open>What the vault promises\<close>

text \<open>Reading does not write.\<close>

definition readOnly :: "('v, 'cred, 'h) kvSdk \<Rightarrow> bool" where
  "readOnly sdk \<longleftrightarrow>
     (\<forall>h n ver v. snd (SdkGetSecret sdk h n ver v) = v \<and> snd (SdkGetKey sdk h n ver v) = v \<and>
        snd (SdkGetCertificate sdk h n ver v) = v) \<and>
     (\<forall>p v. snd (snd (NextPage sdk p v)) = v)"

text \<open>
  A version holds the same material for ever: two answers for one name that carry the same
  version have the same material, whichever version was asked for, by its identifier or as the
  latest. The content type of a secret may be changed later, but not that of a secret that backs a
  certificate.
\<close>

definition sameSecret :: "secretBundle \<Rightarrow> secretBundle \<Rightarrow> bool" where
  "sameSecret a b \<longleftrightarrow> sbValue a = sbValue b \<and> sbKid a = sbKid b \<and>
     (sbKid a = None \<or> sbKid a = Some [] \<or> sbContentType a = sbContentType b)"

definition immutableSecrets :: "('v, 'cred, 'h) kvSdk \<Rightarrow> bool" where
  "immutableSecrets sdk \<longleftrightarrow>
     (\<forall>h n ver ver' v v' a b i j. fst (SdkGetSecret sdk h n ver v) = Inr a \<longrightarrow> fst (SdkGetSecret sdk h n ver' v') = Inr b \<longrightarrow>
        sbID a = Some i \<longrightarrow> sbID b = Some j \<longrightarrow> SecretIDVersion sdk i = SecretIDVersion sdk j \<longrightarrow> sameSecret a b)"

definition immutableKeys :: "('v, 'cred, 'h) kvSdk \<Rightarrow> bool" where
  "immutableKeys sdk \<longleftrightarrow>
     (\<forall>h n ver ver' v v' a b x y i j. fst (SdkGetKey sdk h n ver v) = Inr a \<longrightarrow> fst (SdkGetKey sdk h n ver' v') = Inr b \<longrightarrow>
        kbKey a = Some x \<longrightarrow> kbKey b = Some y \<longrightarrow> jwkKID x = Some i \<longrightarrow> jwkKID y = Some j \<longrightarrow>
        KeyIDVersion sdk i = KeyIDVersion sdk j \<longrightarrow> y = x\<lparr>jwkKID := Some j\<rparr>)"

definition immutableCertificates :: "('v, 'cred, 'h) kvSdk \<Rightarrow> bool" where
  "immutableCertificates sdk \<longleftrightarrow>
     (\<forall>h n ver ver' v v' a b i j. fst (SdkGetCertificate sdk h n ver v) = Inr a \<longrightarrow>
        fst (SdkGetCertificate sdk h n ver' v') = Inr b \<longrightarrow> cbID a = Some i \<longrightarrow> cbID b = Some j \<longrightarrow>
        CertificateIDVersion sdk i = CertificateIDVersion sdk j \<longrightarrow> cbCER a = cbCER b)"

definition immutableVersions :: "('v, 'cred, 'h) kvSdk \<Rightarrow> bool" where
  "immutableVersions sdk \<longleftrightarrow> immutableSecrets sdk \<and> immutableKeys sdk \<and> immutableCertificates sdk"

lemma immutableSecretsD:
  assumes "immutableVersions sdk" "fst (SdkGetSecret sdk h n ver v) = Inr a" "fst (SdkGetSecret sdk h n ver' v') = Inr b"
    "sbID a = Some i" "sbID b = Some j" "SecretIDVersion sdk i = SecretIDVersion sdk j"
  shows "sameSecret a b"
proof -
  have "immutableSecrets sdk" using assms(1) by (simp add: immutableVersions_def)
  from this[unfolded immutableSecrets_def, rule_format, OF assms(2-)] show ?thesis .
qed

lemma immutableKeysD:
  assumes "immutableVersions sdk" "fst (SdkGetKey sdk h n ver v) = Inr a" "fst (SdkGetKey sdk h n ver' v') = Inr b"
    "kbKey a = Some x" "kbKey b = Some y" "jwkKID x = Some i" "jwkKID y = Some j"
    "KeyIDVersion sdk i = KeyIDVersion sdk j"
  shows "y = x\<lparr>jwkKID := Some j\<rparr>"
proof -
  have "immutableKeys sdk" using assms(1) by (simp add: immutableVersions_def)
  from this[unfolded immutableKeys_def, rule_format, OF assms(2-)] show ?thesis .
qed

lemma immutableCertificatesD:
  assumes "immutableVersions sdk" "fst (SdkGetCertificate sdk h n ver v) = Inr a"
    "fst (SdkGetCertificate sdk h n ver' v') = Inr b"
    "cbID a = Some i" "cbID b = Some j" "CertificateIDVersion sdk i = CertificateIDVersion sdk j"
  shows "cbCER a = cbCER b"
proof -
  have "immutableCertificates sdk" using assms(1) by (simp add: immutableVersions_def)
  from this[unfolded immutableCertificates_def, rule_format, OF assms(2-)] show ?thesis .
qed

section \<open>Remounting an unchanged vault\<close>

text \<open>The result depends on the vault only, and only reports are added.\<close>

definition steady :: "('v world, 'a) io \<Rightarrow> bool" where
  "steady m \<longleftrightarrow> (\<forall>w. environ (snd (m w)) = environ w \<and> vault (snd (m w)) = vault w \<and>
     (\<forall>w'. vault w' = vault w \<longrightarrow> fst (m w') = fst (m w)))"

named_theorems steady_intros \<open>rules that carry steady through the combinators\<close>

lemma steadyD:
  assumes "steady m" "m w = (r, w1)"
  shows "environ w1 = environ w" "vault w1 = vault w" "vault w' = vault w \<Longrightarrow> fst (m w') = r"
  using assms by (auto simp: steady_def) (metis fst_conv snd_conv)+

lemma steady_slift [steady_intros]: "steady (slift r)"
  by (simp add: steady_def slift_def)

lemma steady_sreturn [steady_intros]: "steady (sreturn x)"
  by (simp add: steady_def sreturn_def)

lemma steadyI:
  assumes "\<And>w r w1. m w = (r, w1) \<Longrightarrow> environ w1 = environ w \<and> vault w1 = vault w"
    and "\<And>w w'. vault w' = vault w \<Longrightarrow> fst (m w') = fst (m w)"
  shows "steady m"
  unfolding steady_def using assms by (metis prod.collapse)

lemma steady_sbind [steady_intros]:
  assumes "steady m" "\<And>x. steady (f x)"
  shows "steady (sbind m f)"
proof (rule steadyI)
  fix w r w1
  assume run: "sbind m f w = (r, w1)"
  obtain x t where m: "m w = (x, t)" by fastforce
  show "environ w1 = environ w \<and> vault w1 = vault w"
  proof (cases x)
    case (Inl e)
    with run m steadyD(1,2)[OF assms(1) m] show ?thesis by (simp add: sbind_def)
  next
    case (Inr y)
    with run m have "f y t = (r, w1)" by (simp add: sbind_def)
    with steadyD(1,2)[OF assms(1) m] steadyD(1,2)[OF assms(2) this] show ?thesis by simp
  qed
next
  fix w w' :: "'a world"
  assume v: "vault w' = vault w"
  obtain x t x' t' where m: "m w = (x, t)" "m w' = (x', t')" by fastforce
  then have "x' = x" "vault t' = vault t"
    using steadyD(3)[OF assms(1) m(1) v] steadyD(2)[OF assms(1)] v by auto
  moreover have "fst (f y t') = fst (f y t)" for y
    using steadyD(3)[OF assms(2) surjective_pairing, of t' t] calculation(2) by blast
  ultimately show "fst (sbind m f w') = fst (sbind m f w)"
    using m by (cases x) (simp_all add: sbind_def)
qed

lemma mapS_sbind:
  "mapS f (x # xs) = sbind (f x) (\<lambda>y. sbind (mapS f xs) (\<lambda>ys. sreturn (y # ys)))"
  by (rule ext) (auto simp: sbind_def sreturn_def split: prod.splits sum.splits)

lemma steady_mapS [steady_intros]:
  assumes "\<And>x. steady (f x)"
  shows "steady (mapS f xs)"
proof (induction xs)
  case Nil
  show ?case by (simp add: steady_def)
next
  case (Cons x xs)
  then show ?case unfolding mapS_sbind by (intro steady_intros assms)
qed

lemma steady_onVault [steady_intros]:
  assumes "\<And>v. snd (m v) = v"
  shows "steady (onVault m)"
proof (rule steadyI)
  show "environ w1 = environ w \<and> vault w1 = vault w" if "onVault m w = (r, w1)" for w r w1
  proof -
    obtain x where "m (vault w) = (x, vault w)" using assms by (metis surjective_pairing)
    then have "w1 = w\<lparr>vault := vault w\<rparr>" using that by (simp add: onVault_def)
    then show ?thesis by simp
  qed
qed (simp add: onVault_result)

lemma steady_reportRequest [steady_intros]:
  assumes "steady m"
  shows "steady (reportRequest kv m)"
proof (rule steadyI)
  show "environ w1 = environ w \<and> vault w1 = vault w" if "reportRequest kv m w = (r, w1)" for w r w1
    using that steadyD(1,2)[OF assms surjective_pairing, of w] by (auto simp: reportRequest_def case_prod_beta)
  show "fst (reportRequest kv m w') = fst (reportRequest kv m w)" if "vault w' = vault w" for w w'
    using steadyD(3)[OF assms surjective_pairing that] by (simp add: reportRequest_result)
qed

lemma pagerLoop_readOnly:
  assumes "readOnly sdk" "pagerLoop sdk idVersion pager acc v = Some (r, v')"
  shows "v' = v"
proof -
  have "readOnly sdk \<longrightarrow> snd (r, v') = v"
  proof (rule pagerLoop.raw_induct[where P = "\<lambda>sdk _ _ _ v out. readOnly sdk \<longrightarrow> snd out = v", OF _ assms(2)], rule impI)
    fix loop sdk idVersion pager acc v out
    assume IH: "\<And>sdk idVersion pager acc v out. loop sdk idVersion pager acc v = Some out \<Longrightarrow>
        readOnly sdk \<longrightarrow> snd out = v"
      and eq: "(if More sdk pager then
          (case NextPage sdk pager v of (nextPage, pager', v') \<Rightarrow>
             (case pageStep idVersion acc nextPage of
                Inl e \<Rightarrow> Some (Inl e, v') | Inr acc' \<Rightarrow> loop sdk idVersion pager' acc' v'))
        else Some (Inr acc, v)) = Some out"
      and ro: "readOnly sdk"
    have "snd (snd (NextPage sdk pager v)) = v" using ro by (simp add: readOnly_def)
    with eq ro show "snd out = v"
      by (auto split: if_splits prod.splits sum.splits dest: IH)
  qed
  with assms(1) show ?thesis by simp
qed

lemma steady_versions:
  assumes "readOnly sdk"
  shows "steady (getKeyVaultObjectVersions sdk c kv)"
proof -
  have "snd (orNoReturn v (pagerLoop sdk idVersion pager [] v)) = v" for idVersion pager v
    using pagerLoop_readOnly[OF assms] by (auto simp: orNoReturn_def split: option.splits)
  then show ?thesis
    unfolding getKeyVaultObjectVersions_def getSecretVersions_def getKeyVersions_def getCertificateVersions_def
      GetSecretVersions_def[abs_def] GetKeyVersions_def[abs_def] GetCertificateVersions_def[abs_def]
    by (auto intro!: steady_intros)
qed

lemma steady_content:
  assumes "readOnly sdk"
  shows "steady (getKeyVaultObjectContent sdk lib p c kv)"
proof -
  have "snd (getSecret sdk lib p c kv v) = v" "snd (getKey sdk lib c kv v) = v" "snd (getCertificate sdk c kv v) = v" for v
    using assms unfolding readOnly_def getSecret_def getKey_def getCertificate_def GetSecret_def GetKey_def GetCertificate_def
    by (auto split: prod.split sum.split) (metis snd_conv)+
  then show ?thesis unfolding getKeyVaultObjectContent_def by (auto intro!: steady_intros)
qed

lemma steady_fetchFiles:
  assumes "readOnly sdk"
  shows "steady (fetchFiles (resolveObjectVersions sdk sortf c) (getKeyVaultObjectContent sdk lib p c) perm kvs)"
proof -
  have "steady (resolveObjectVersions sdk sortf c kv)" for kv
    unfolding resolveObjectVersions_def by (auto intro!: steady_intros steady_versions[OF assms])
  then show ?thesis unfolding fetchFiles_def fetchObject_def fetchResolved_def
    by (auto intro!: steady_intros steady_content[OF assms])
qed

text \<open>Setting the variable twice is setting it once, and the cloud is looked up after that.\<close>

lemma buildMount_again:
  assumes "buildMount d p attrib secrets mode w = (r, w1)" "environ w2 = environ w1"
  shows "buildMount d p attrib secrets mode w2 = (r, w2)"
proof -
  have "w2\<lparr>environ := (environ w2)(k \<mapsto> x)\<rparr> = w2" if "environ w2 k = Some x" for k x
    using that by (simp add: fun_upd_idem)
  with assms show ?thesis
    by (auto simp: buildMount_def sbind_def slift_def sreturn_def setAzureEnvironmentFilePath_def Setenv_def
        split: if_splits sum.splits)
qed

text \<open>What happens after the configuration is built.\<close>

definition afterBuild ::
  "('v, 't, 'c, 'h, 'k) deps \<Rightarrow> 't authGlobals \<Rightarrow> provider \<Rightarrow> params \<Rightarrow> int32 \<Rightarrow> mountConfig \<Rightarrow>
   ('v world, secretFile list) io" where
  "afterBuild d g p attrib perm mc =
     sbind (slift (parseObjects d attrib)) (\<lambda>kvs.
       if kvs = [] then sreturn []
       else sbind (slift (openVault d g mc)) (\<lambda>c.
         fetchFiles (resolveObjectVersions (depSdk d) (depSort d) c)
           (getKeyVaultObjectContent (depSdk d) (depCrypto d) p c) perm kvs))"

lemma mount_afterBuild:
  "GetSecretsStoreObjectContent d g p attrib secrets perm =
     sbind (slift (readParameters attrib)) (\<lambda>mode.
     sbind (buildMount d p attrib secrets mode) (afterBuild d g p attrib perm))"
  by (simp add: GetSecretsStoreObjectContent_def afterBuild_def[abs_def])

lemma steady_afterBuild: "readOnly (depSdk d) \<Longrightarrow> steady (afterBuild d g p attrib perm mc)"
  unfolding afterBuild_def by (auto intro!: steady_intros steady_fetchFiles)

lemma mount_again:
  assumes ro: "readOnly (depSdk d)"
    and run: "GetSecretsStoreObjectContent d g p attrib secrets perm w = (r, w1)"
  shows "fst (GetSecretsStoreObjectContent d g p attrib secrets perm w1) = r \<and>
    vault w1 = vault w \<and> environ (snd (GetSecretsStoreObjectContent d g p attrib secrets perm w1)) = environ w1"
proof (cases "readParameters attrib")
  case (Inl e)
  with run show ?thesis by (auto simp: mount_afterBuild sbind_def slift_def)
next
  case (Inr mode)
  obtain x t where b: "buildMount d p attrib secrets mode w = (x, t)" by fastforce
  have v: "vault t = vault w" using buildMount_frame[OF b] by simp
  show ?thesis
  proof (cases x)
    case (Inl e)
    with b run \<open>readParameters attrib = Inr mode\<close> have "r = Inl e" "w1 = t"
      by (auto simp: mount_afterBuild sbind_def slift_def)
    with buildMount_again[OF b, of t] Inl Inr v show ?thesis by (simp add: mount_afterBuild sbind_def slift_def)
  next
    case (Inr mc)
    let ?m = "afterBuild d g p attrib perm mc"
    have m: "?m t = (r, w1)"
      using b run Inr \<open>readParameters attrib = Inr mode\<close> by (simp add: mount_afterBuild sbind_def slift_def)
    note st = steadyD[OF steady_afterBuild[OF ro] m]
    have "GetSecretsStoreObjectContent d g p attrib secrets perm w1 = ?m w1"
      using buildMount_again[OF b st(1)] Inr \<open>readParameters attrib = Inr mode\<close>
      by (simp add: mount_afterBuild sbind_def slift_def)
    moreover have "environ (snd (?m w1)) = environ w1"
      by (rule steadyD(1)[OF steady_afterBuild[OF ro] surjective_pairing])
    ultimately show ?thesis using st(2) st(3)[of w1] v by simp
  qed
qed

section \<open>Versions identify contents\<close>

lemma secretObjects_same:
  assumes "secretObjects lib f p kv a = Inr rs" "secretObjects lib f p kv b = Inr rs'"
    and "version (hd rs) = version (hd rs')"
    and "\<And>i j. sbID a = Some i \<Longrightarrow> sbID b = Some j \<Longrightarrow> f i = f j \<Longrightarrow> sameSecret a b"
  shows "rs = rs'"
proof -
  obtain i j x y where ids: "sbID a = Some i" "sbID b = Some j" "sbValue a = Some x" "sbValue b = Some y"
    using assms(1,2) by (auto simp: secretObjects_def split: option.splits)
  then have "version (hd rs) = f i" "version (hd rs') = f j"
    using assms(1,2) by (auto simp: secretObjects_def Let_def case_prod_beta result_simps split: option.splits if_splits)
  with assms(3,4) ids have "f i = f j" "sameSecret a b" by auto
  with assms(1,2) ids show ?thesis
    by (auto simp: secretObjects_def sameSecret_def Let_def split: option.splits if_splits)
qed

lemma keyObjects_same:
  assumes "keyObjects lib f kv a = Inr rs" "keyObjects lib f kv b = Inr rs'"
    and "version (hd rs) = version (hd rs')"
    and "\<And>x y i j. kbKey a = Some x \<Longrightarrow> kbKey b = Some y \<Longrightarrow> jwkKID x = Some i \<Longrightarrow> jwkKID y = Some j \<Longrightarrow>
      f i = f j \<Longrightarrow> y = x\<lparr>jwkKID := Some j\<rparr>"
  shows "rs = rs'"
proof -
  obtain x y i j where k: "kbKey a = Some x" "kbKey b = Some y" "jwkKID x = Some i" "jwkKID y = Some j"
    using assms(1,2) by (auto simp: keyObjects_def split: option.splits)
  with assms(1-3) have "f i = f j" by (auto simp: keyObjects_def result_simps)
  with assms(4) k have "y = x\<lparr>jwkKID := Some j\<rparr>" by blast
  then have "jwkPublicKey kv y = jwkPublicKey kv x" by (simp add: jwkPublicKey_def split: option.split)
  with assms(1,2) k \<open>f i = f j\<close> show ?thesis by (auto simp: keyObjects_def result_simps)
qed

lemma certObjects_same:
  assumes "certObjects f a = Inr rs" "certObjects f b = Inr rs'" "version (hd rs) = version (hd rs')"
    and "\<And>i j. cbID a = Some i \<Longrightarrow> cbID b = Some j \<Longrightarrow> f i = f j \<Longrightarrow> cbCER a = cbCER b"
  shows "rs = rs'"
  using assms by (auto simp: certObjects_def split: option.splits)

text \<open>The contents depend on the name, type and format of an object only.\<close>

definition sameObject :: "keyVaultObject \<Rightarrow> keyVaultObject \<Rightarrow> bool" where
  "sameObject kv kv' \<longleftrightarrow> ObjectName kv = ObjectName kv' \<and> ObjectType kv = ObjectType kv' \<and> ObjectFormat kv = ObjectFormat kv'"

lemma secretObjects_format:
  assumes "ObjectFormat kv = ObjectFormat kv'"
  shows "secretObjects lib f p kv b = Inr rs \<longleftrightarrow> secretObjects lib f p kv' b = Inr rs"
proof -
  have "certSecretContent lib p kv ct val = Inr x \<longleftrightarrow> certSecretContent lib p kv' ct val = Inr x" for ct val x
    using assms by (auto simp: certSecretContent_def result_simps split: option.splits)
  then show ?thesis by (auto simp: secretObjects_def Let_def result_simps split: option.splits)
qed

lemma keyObjects_any: "keyObjects lib f kv b = Inr rs \<longleftrightarrow> keyObjects lib f kv' b = Inr rs"
proof -
  have "jwkPublicKey kv key = Inr x \<longleftrightarrow> jwkPublicKey kv' key = Inr x" for key x
    by (auto simp: jwkPublicKey_def result_simps split: option.splits)
  then show ?thesis by (auto simp: keyObjects_def result_simps split: option.splits)
qed

lemma content_same:
  assumes im: "immutableVersions sdk" and kv: "sameObject kv kv'"
    and run: "getKeyVaultObjectContent sdk lib p c kv w = (Inr rs, w1)"
      "getKeyVaultObjectContent sdk lib p c kv' w' = (Inr rs', w1')"
    and v: "version (hd rs) = version (hd rs')"
  shows "rs = rs'"
proof -
  have f: "fst (getKeyVaultObjectContent sdk lib p c k u) =
      (if ObjectType k = VaultObjectTypeSecret then fst (getSecret sdk lib p c k (vault u))
       else if ObjectType k = VaultObjectTypeKey then fst (getKey sdk lib c k (vault u))
       else if ObjectType k = VaultObjectTypeCertificate then fst (getCertificate sdk c k (vault u))
       else Inl (errObjectType k))" for k u
    by (simp add: getKeyVaultObjectContent_def reportRequest_result onVault_result slift_def)
  have n: "ObjectName kv' = ObjectName kv" "ObjectType kv' = ObjectType kv" "ObjectFormat kv = ObjectFormat kv'"
    using kv by (simp_all add: sameObject_def)
  consider (secret) "fst (getSecret sdk lib p c kv (vault w)) = Inr rs" "fst (getSecret sdk lib p c kv' (vault w')) = Inr rs'"
    | (key) "fst (getKey sdk lib c kv (vault w)) = Inr rs" "fst (getKey sdk lib c kv' (vault w')) = Inr rs'"
    | (cert) "fst (getCertificate sdk c kv (vault w)) = Inr rs" "fst (getCertificate sdk c kv' (vault w')) = Inr rs'"
    using f[of kv w] f[of kv' w'] run n by (auto split: if_splits)
  then show ?thesis
  proof cases
    case secret
    then obtain a b where "fst (SdkGetSecret sdk (secretsClient c) (ObjectName kv) (ObjectVersion kv) (vault w)) = Inr a"
      "fst (SdkGetSecret sdk (secretsClient c) (ObjectName kv) (ObjectVersion kv') (vault w')) = Inr b"
      and o: "secretObjects lib (SecretIDVersion sdk) p kv a = Inr rs" "secretObjects lib (SecretIDVersion sdk) p kv' b = Inr rs'"
      using n(1) by (auto simp: getSecret_def GetSecret_def split: prod.splits sum.splits)
    then show ?thesis
      by (intro secretObjects_same[OF o(1) o(2)[folded secretObjects_format[OF n(3)]] v]) (rule immutableSecretsD[OF im])
  next
    case key
    then obtain a b where "fst (SdkGetKey sdk (keysClient c) (ObjectName kv) (ObjectVersion kv) (vault w)) = Inr a"
      "fst (SdkGetKey sdk (keysClient c) (ObjectName kv) (ObjectVersion kv') (vault w')) = Inr b"
      and o: "keyObjects lib (KeyIDVersion sdk) kv a = Inr rs" "keyObjects lib (KeyIDVersion sdk) kv' b = Inr rs'"
      using n(1) by (auto simp: getKey_def GetKey_def split: prod.splits sum.splits)
    then show ?thesis
      by (intro keyObjects_same[OF o(1) o(2)[unfolded keyObjects_any[of lib _ kv' _ _ kv]] v]) (rule immutableKeysD[OF im])
  next
    case cert
    then obtain a b where "fst (SdkGetCertificate sdk (certsClient c) (ObjectName kv) (ObjectVersion kv) (vault w)) = Inr a"
      "fst (SdkGetCertificate sdk (certsClient c) (ObjectName kv) (ObjectVersion kv') (vault w')) = Inr b"
      and o: "certObjects (CertificateIDVersion sdk) a = Inr rs" "certObjects (CertificateIDVersion sdk) b = Inr rs'"
      using n(1) by (auto simp: getCertificate_def GetCertificate_def split: prod.splits sum.splits)
    then show ?thesis by (intro certObjects_same[OF o v]) (rule immutableCertificatesD[OF im])
  qed
qed

lemma content_nonempty:
  assumes "getKeyVaultObjectContent sdk lib p c kv w = (Inr rs, w1)"
  shows "rs \<noteq> []"
proof -
  have "fst (getKeyVaultObjectContent sdk lib p c kv w) = Inr rs" using assms by simp
  then show ?thesis
    by (auto simp: getKeyVaultObjectContent_def reportRequest_result onVault_result slift_def getSecret_def getKey_def
        getCertificate_def secretObjects_def keyObjects_def certObjects_def Let_def result_simps
        split: if_splits prod.splits sum.splits option.splits)
qed

text \<open>
  One version of one object: with the same identifier and version, two reads give the same files.
\<close>

definition fileKey :: "secretFile \<Rightarrow> string \<times> string" where
  "fileKey f = (sfUID f, sfVersion f)"

lemma mapE_fileOf_version: "mapE (fileOf perm kv) rs = Inr fs \<Longrightarrow> map sfVersion fs = map version rs"
  by (induction rs arbitrary: fs) (auto simp: fileOf_def result_simps split: sum.splits)

lemma fetchResolved_result:
  assumes "fetchResolved fetch perm kv w = (Inr fs, w1)"
  obtains rs where "fetch kv w = (Inr rs, w1)" "mapE (fileOf perm kv) rs = Inr fs"
  using assms by (auto simp: fetchResolved_def sbind_def slift_def split: prod.splits sum.splits)

lemma fetchResolved_same:
  assumes im: "immutableVersions sdk" and kv: "sameObject kv kv'" "\<And>r. fileOf perm kv r = fileOf perm kv' r"
    and run: "fetchResolved (getKeyVaultObjectContent sdk lib p c) perm kv w = (Inr fs, w1)"
      "fetchResolved (getKeyVaultObjectContent sdk lib p c) perm kv' w' = (Inr fs', w1')"
    and keys: "map fileKey (fs @ rest) = map fileKey (fs' @ rest')"
  shows "fs = fs' \<and> fs \<noteq> []"
proof -
  obtain rs where rs: "getKeyVaultObjectContent sdk lib p c kv w = (Inr rs, w1)" "mapE (fileOf perm kv) rs = Inr fs"
    by (rule fetchResolved_result[OF run(1)])
  obtain rs' where rs': "getKeyVaultObjectContent sdk lib p c kv' w' = (Inr rs', w1')" "mapE (fileOf perm kv') rs' = Inr fs'"
    by (rule fetchResolved_result[OF run(2)])
  note ver = mapE_fileOf_version[OF rs(2)] mapE_fileOf_version[OF rs'(2)]
  have ne: "rs \<noteq> []" "rs' \<noteq> []" using content_nonempty rs(1) rs'(1) by blast+
  have "map snd (map fileKey (fs @ rest)) = map snd (map fileKey (fs' @ rest'))" using keys by (rule arg_cong)
  then have "map version rs @ map sfVersion rest = map version rs' @ map sfVersion rest'"
    using ver by (simp add: fileKey_def comp_def)
  then have "version (hd rs) = version (hd rs')" using ne by (cases rs; cases rs') auto
  then have "rs = rs'" by (rule content_same[OF im kv(1) rs(1) rs'(1)])
  moreover have "fileOf perm kv = fileOf perm kv'" using kv(2) by blast
  ultimately have "fs = fs'" using rs(2) rs'(2) by simp
  moreover have "fs \<noteq> []" using ver(1) ne(1) by auto
  ultimately show ?thesis by blast
qed

text \<open>The versions of one object, which may be different ones in the two reads.\<close>

lemma numbered_same: "sameObject (numbered kv i v) (numbered kv i v')" "fileOf perm (numbered kv i v) r = fileOf perm (numbered kv i v') r"
proof -
  have "GetFilePermission (numbered kv i v) perm = GetFilePermission (numbered kv i v') perm"
    "GetFileName (numbered kv i v) = GetFileName (numbered kv i v')" "GetObjectUID (numbered kv i v) = GetObjectUID (numbered kv i v')"
    by (simp_all add: GetFilePermission_def GetFileName_def GetObjectUID_def IsSyncingSingleVersion_def)
  then show "sameObject (numbered kv i v) (numbered kv i v')" "fileOf perm (numbered kv i v) r = fileOf perm (numbered kv i v') r"
    by (simp_all add: sameObject_def fileOf_def)
qed

lemma mapS_Cons_result:
  assumes "mapS f (x # xs) w = (Inr yss, w1)"
  obtains y t ys where "f x w = (Inr y, t)" "mapS f xs t = (Inr ys, w1)" "yss = y # ys"
  using assms by (auto split: prod.splits sum.splits)

lemma versions_same:
  assumes "immutableVersions sdk"
    and "mapS (fetchResolved (getKeyVaultObjectContent sdk lib p c) perm)
      (map (\<lambda>(i, v). numbered kv i v) (enumerate n vs)) w = (Inr fss, w1)"
    and "mapS (fetchResolved (getKeyVaultObjectContent sdk lib p c) perm)
      (map (\<lambda>(i, v). numbered kv i v) (enumerate n vs')) w' = (Inr fss', w1')"
    and "map fileKey (concat fss) = map fileKey (concat fss')"
  shows "fss = fss'"
  using assms(2-)
proof (induction vs arbitrary: n vs' w w' fss fss')
  case Nil
  then have "concat fss' = []" by simp
  show ?case
  proof (cases vs')
    case (Cons v' us)
    obtain fs' t gs' where 1: "fetchResolved (getKeyVaultObjectContent sdk lib p c) perm (numbered kv n v') w' = (Inr fs', t)"
      "fss' = fs' # gs'"
      using mapS_Cons_result[of _ "numbered kv n v'"] Nil.prems(2)[unfolded Cons enumerate_simps list.map prod.case] by metis
    from fetchResolved_same[OF assms(1) _ _ 1(1) 1(1), of "[]" "[]"] have "fs' \<noteq> []" by (simp add: sameObject_def)
    with 1(2) \<open>concat fss' = []\<close> show ?thesis by simp
  qed (use Nil in auto)
next
  case (Cons v vs)
  let ?f = "fetchResolved (getKeyVaultObjectContent sdk lib p c) perm"
  obtain fs t gs where 1: "?f (numbered kv n v) w = (Inr fs, t)"
    "mapS ?f (map (\<lambda>(i, v). numbered kv i v) (enumerate (Suc n) vs)) t = (Inr gs, w1)" "fss = fs # gs"
    by (rule mapS_Cons_result[OF Cons.prems(1)[unfolded enumerate_simps list.map prod.case]])
  from fetchResolved_same[OF assms(1) _ _ 1(1) 1(1), of "[]" "[]"] have ne: "fs \<noteq> []" by (simp add: sameObject_def)
  with Cons.prems 1(3) obtain v' us where vs': "vs' = v' # us" by (cases vs') auto
  obtain fs' t' gs' where 2: "?f (numbered kv n v') w' = (Inr fs', t')"
    "mapS ?f (map (\<lambda>(i, v). numbered kv i v) (enumerate (Suc n) us)) t' = (Inr gs', w1')" "fss' = fs' # gs'"
    by (rule mapS_Cons_result[OF Cons.prems(2)[unfolded vs' enumerate_simps list.map prod.case]])
  have "fs = fs'"
    using fetchResolved_same[OF assms(1) numbered_same 1(1) 2(1), of "concat gs" "concat gs'"] Cons.prems(3) 1(3) 2(3) by simp
  moreover have "gs = gs'"
    by (rule Cons.IH[OF 1(2) 2(2)]) (use Cons.prems(3) 1(3) 2(3) \<open>fs = fs'\<close> in auto)
  ultimately show ?case using 1(3) 2(3) by simp
qed

text \<open>
  One object. The identifiers of its files are those of one version, or of its numbered versions;
  the names of the types have no slash.
\<close>

definition ownUID :: "keyVaultObject \<Rightarrow> string \<Rightarrow> bool" where
  "ownUID kv u \<longleftrightarrow>
     (if IsSyncingSingleVersion kv then u = ObjectType kv @ ''/'' @ ObjectName kv
      else \<exists>i. u = ObjectType kv @ ''/'' @ ObjectName kv @ ''/'' @ Itoa i)"

definition vaultType :: "keyVaultObject \<Rightarrow> bool" where
  "vaultType kv \<longleftrightarrow> ObjectType kv \<in> {VaultObjectTypeSecret, VaultObjectTypeKey, VaultObjectTypeCertificate}"

lemma fetchObject_result:
  assumes "fetchObject (resolveObjectVersions sdk sortf c) fetch perm kv w = (Inr fs, w1)"
  obtains (single) "IsSyncingSingleVersion kv" "fetchResolved fetch perm kv w = (Inr fs, w1)"
  | (versions) vs t fss where "\<not> IsSyncingSingleVersion kv"
      "getKeyVaultObjectVersions sdk c kv w = (Inr vs, t)" "fs = concat fss"
      "mapS (fetchResolved fetch perm)
        (map (\<lambda>(i, v). numbered kv i v) (enumerate 0 (syncedVersions kv (sortf vs)))) t = (Inr fss, w1)"
  using assms
  by (auto simp: fetchObject_def resolveObjectVersions_def getLatestN_reference sbind_def sreturn_def
      split: prod.splits sum.splits if_splits)

lemma fetchResolved_UID:
  assumes "fetchResolved fetch perm kv w = (Inr fs, w1)" "f \<in> set fs"
  shows "sfUID f = GetObjectUID kv"
proof -
  obtain rs where "mapE (fileOf perm kv) rs = Inr fs" by (rule fetchResolved_result[OF assms(1)])
  then have "\<exists>r. fileOf perm kv r = Inr f" using mapE_elem assms(2) by fastforce
  then show ?thesis by (auto simp: fileOf_def result_simps)
qed

lemma fetchObject_UID:
  assumes "fetchObject (resolveObjectVersions sdk sortf c) fetch perm kv w = (Inr fs, w1)" "f \<in> set fs"
  shows "ownUID kv (sfUID f)"
  using assms(1)
proof (cases rule: fetchObject_result)
  case single
  with fetchResolved_UID[OF single(2) assms(2)] show ?thesis by (simp add: ownUID_def GetObjectUID_def)
next
  case (versions vs t fss)
  then obtain gs where "gs \<in> set fss" "f \<in> set gs" using assms(2) by auto
  with mapS_elem[OF versions(4)] obtain i v u u' where "fetchResolved fetch perm (numbered kv i v) u = (Inr gs, u')" by fastforce
  from fetchResolved_UID[OF this \<open>f \<in> set gs\<close>] numbered_UID[OF versions(1)] versions(1) show ?thesis
    by (auto simp: ownUID_def)
qed

lemma content_vaultType:
  assumes "getKeyVaultObjectContent sdk lib p c kv w = (Inr rs, w1)"
  shows "vaultType kv"
proof -
  have "fst (getKeyVaultObjectContent sdk lib p c kv w) = Inr rs" using assms by simp
  then show ?thesis
    by (auto simp: getKeyVaultObjectContent_def reportRequest_result slift_def vaultType_def split: if_splits)
qed

lemma versions_vaultType:
  assumes "getKeyVaultObjectVersions sdk c kv w = (Inr rs, w1)"
  shows "vaultType kv"
proof -
  have "fst (getKeyVaultObjectVersions sdk c kv w) = Inr rs" using assms by simp
  then show ?thesis
    by (auto simp: getKeyVaultObjectVersions_def reportRequest_result slift_def vaultType_def split: if_splits)
qed

lemma fetchObject_vaultType:
  assumes "fetchObject (resolveObjectVersions sdk sortf c) (getKeyVaultObjectContent sdk lib p c) perm kv w = (Inr fs, w1)"
  shows "vaultType kv"
  using assms
  by (cases rule: fetchObject_result) (auto elim!: fetchResolved_result dest: content_vaultType versions_vaultType)

lemma ownUID_disjoint:
  assumes "vaultType kv" "vaultType kv'" "slash \<notin> set (ObjectName kv)" "slash \<notin> set (ObjectName kv')"
    and "ownUID kv u" "ownUID kv' u" "\<not> IsSyncingSingleVersion kv"
  shows "\<not> IsSyncingSingleVersion kv' \<and> ObjectType kv = ObjectType kv' \<and> ObjectName kv = ObjectName kv'"
proof -
  have ty: "slash \<notin> set (ObjectType kv)" "slash \<notin> set (ObjectType kv')"
    using assms(1,2) by (auto simp: vaultType_def const_defs)
  have two: "split_on slash (a @ ''/'' @ b) = [a, b]" if "slash \<notin> set a" "slash \<notin> set b" for a b
    using that by (simp add: split_on_append_sep split_on_no_sep)
  have three: "split_on slash (a @ ''/'' @ b @ ''/'' @ Itoa i) = [a, b, Itoa i]" if "slash \<notin> set a" "slash \<notin> set b" for a b i
    using that by (simp add: split_on_append_sep split_on_no_sep)
  obtain i where "split_on slash u = [ObjectType kv, ObjectName kv, Itoa i]"
    using assms(5,7) three[OF ty(1) assms(3)] by (auto simp: ownUID_def)
  then show ?thesis using assms(6) two[OF ty(2) assms(4)] three[OF ty(2) assms(4)]
    by (auto simp: ownUID_def split: if_splits)
qed

text \<open>
  The objects of a request can be told apart by the identifiers of their files: either each is synced
  in one version, or no name has a slash, which Key Vault does not allow in names, and no two of
  those synced in several versions are the same object of the vault.
\<close>

definition toldApart :: "keyVaultObject list \<Rightarrow> bool" where
  "toldApart kvs \<longleftrightarrow>
     list_all IsSyncingSingleVersion kvs \<or>
     (\<forall>kv\<in>set kvs. slash \<notin> set (ObjectName kv)) \<and>
     distinct (map (\<lambda>kv. (ObjectType kv, ObjectName kv)) (filter (\<lambda>kv. \<not> IsSyncingSingleVersion kv) kvs))"

lemma split_at_key:
  assumes "map k (xs @ ys) = map k (xs' @ ys')"
    and "\<And>x. x \<in> set xs \<union> set xs' \<Longrightarrow> P (k x)" "\<And>y. y \<in> set ys \<union> set ys' \<Longrightarrow> \<not> P (k y)"
  shows "map k xs = map k xs' \<and> map k ys = map k ys'"
proof -
  have "filter P (map k (as @ bs)) = map k as \<and> filter (\<lambda>x. \<not> P x) (map k (as @ bs)) = map k bs"
    if "\<And>x. x \<in> set as \<Longrightarrow> P (k x)" "\<And>y. y \<in> set bs \<Longrightarrow> \<not> P (k y)" for as bs
    using that by (simp add: filter_map comp_def filter_empty_conv filter_id_conv)
  from this[of xs ys] this[of xs' ys'] assms show ?thesis by (metis UnI1 UnI2)
qed

lemma fetchAll_UID:
  assumes "mapS (fetchObject (resolveObjectVersions sdk sortf c) (getKeyVaultObjectContent sdk lib p c) perm) kvs w = (Inr fss, w1)"
    and "f \<in> set (concat fss)"
  shows "\<exists>kv\<in>set kvs. vaultType kv \<and> ownUID kv (sfUID f)"
proof -
  obtain fs where "fs \<in> set fss" "f \<in> set fs" using assms(2) by auto
  with mapS_elem[OF assms(1)] obtain kv u u' where "kv \<in> set kvs"
    "fetchObject (resolveObjectVersions sdk sortf c) (getKeyVaultObjectContent sdk lib p c) perm kv u = (Inr fs, u')" by blast
  with fetchObject_UID[OF this(2) \<open>f \<in> set fs\<close>] fetchObject_vaultType[OF this(2)] show ?thesis by blast
qed

lemma fetchAll_same:
  assumes im: "immutableVersions sdk" and "toldApart kvs"
    and "mapS (fetchObject (resolveObjectVersions sdk sortf c) (getKeyVaultObjectContent sdk lib p c) perm) kvs w = (Inr fss, w1)"
    and "mapS (fetchObject (resolveObjectVersions sdk sortf c) (getKeyVaultObjectContent sdk lib p c) perm) kvs w' = (Inr fss', w1')"
    and "map fileKey (concat fss) = map fileKey (concat fss')"
  shows "fss = fss'"
  using assms(2-)
proof (induction kvs arbitrary: w w' fss fss')
  case (Cons kv kvs)
  let ?fetch = "getKeyVaultObjectContent sdk lib p c"
  let ?f = "fetchObject (resolveObjectVersions sdk sortf c) ?fetch perm"
  obtain fs t gs where 1: "?f kv w = (Inr fs, t)" "mapS ?f kvs t = (Inr gs, w1)" "fss = fs # gs"
    by (rule mapS_Cons_result[OF Cons.prems(2)])
  obtain fs' t' gs' where 2: "?f kv w' = (Inr fs', t')" "mapS ?f kvs t' = (Inr gs', w1')" "fss' = fs' # gs'"
    by (rule mapS_Cons_result[OF Cons.prems(3)])
  have keys: "map fileKey (fs @ concat gs) = map fileKey (fs' @ concat gs')" using Cons.prems(4) 1(3) 2(3) by simp
  have "fs = fs'"
  proof (cases "IsSyncingSingleVersion kv")
    case True
    then have "fetchResolved ?fetch perm kv w = (Inr fs, t)" "fetchResolved ?fetch perm kv w' = (Inr fs', t')"
      using 1(1) 2(1) by (auto elim: fetchObject_result)
    from fetchResolved_same[OF im _ _ this keys] show ?thesis by (simp add: sameObject_def)
  next
    case False
    have other: "\<not> ownUID kv (sfUID f)" if "f \<in> set (concat gs) \<union> set (concat gs')" for f
    proof
      assume own: "ownUID kv (sfUID f)"
      have "\<exists>kv'\<in>set kvs. vaultType kv' \<and> ownUID kv' (sfUID f)"
        using that fetchAll_UID[OF 1(2)] fetchAll_UID[OF 2(2)] by blast
      then obtain kv' where kv': "kv' \<in> set kvs" "vaultType kv'" "ownUID kv' (sfUID f)" by blast
      have names: "slash \<notin> set (ObjectName kv)" "slash \<notin> set (ObjectName kv')"
        using Cons.prems(1) False kv'(1) by (auto simp: toldApart_def)
      from ownUID_disjoint[OF fetchObject_vaultType[OF 1(1)] kv'(2) names own kv'(3) False]
      show False using Cons.prems(1) False kv'(1) by (auto simp: toldApart_def)
    qed
    have "map fileKey fs = map fileKey fs'"
      using split_at_key[OF keys, of "\<lambda>k. ownUID kv (fst k)"] other fetchObject_UID[OF 1(1)] fetchObject_UID[OF 2(1)]
      by (simp add: fileKey_def) blast
    with 1(1) 2(1) False show ?thesis
      by (auto elim!: fetchObject_result dest: versions_same[OF im])
  qed
  moreover have "gs = gs'"
    by (rule Cons.IH[OF _ 1(2) 2(2)])
      (use Cons.prems(1) keys \<open>fs = fs'\<close> in \<open>auto simp: toldApart_def split: if_splits\<close>)
  ultimately show ?case using 1(3) 2(3) by simp
qed simp

lemma afterBuild_environ:
  assumes "afterBuild d g p attrib perm mc w = (r, w1)"
  shows "environ w1 = environ w"
  using assms
  by (auto simp: afterBuild_def sbind_def slift_def sreturn_def requestLog_def split: sum.splits if_splits
      dest!: vaultFrame.fetchFiles_P)

lemma buildMount_env:
  assumes "buildMount d p attrib secrets mode w = (r, t)" "buildMount d p attrib secrets mode w' = (r', t')"
    and "environ w' = environ w"
  shows "r' = r"
  using assms
  by (auto simp: buildMount_def sbind_def slift_def sreturn_def setAzureEnvironmentFilePath_def Setenv_def
      split: if_splits sum.splits)

lemma mount_same_versions:
  assumes im: "immutableVersions (depSdk d)"
    and apart: "\<And>kvs. parseObjects d attrib = Inr kvs \<Longrightarrow> toldApart kvs"
    and run: "GetSecretsStoreObjectContent d g p attrib secrets perm w = (Inr fs, w1)"
      "GetSecretsStoreObjectContent d g p attrib secrets perm w' = (Inr fs', w1')"
    and env: "environ w' = environ w \<or> environ w' = environ w1"
    and ver: "map fileKey fs = map fileKey fs'"
  shows "fs = fs'"
proof -
  obtain mode mc t kvs where mode: "readParameters attrib = Inr mode"
    and b: "buildMount d p attrib secrets mode w = (Inr mc, t)" and kvs: "parseObjects d attrib = Inr kvs"
    and m: "afterBuild d g p attrib perm mc t = (Inr fs, w1)"
    using run(1) by (auto simp: mount_afterBuild afterBuild_def result_simps sbind_def slift_def
        split: prod.splits sum.splits)
  obtain mc' t' where b': "buildMount d p attrib secrets mode w' = (Inr mc', t')"
    and m': "afterBuild d g p attrib perm mc' t' = (Inr fs', w1')"
    using run(2) mode by (auto simp: mount_afterBuild result_simps sbind_def slift_def split: prod.splits sum.splits)
  have mc: "mc' = mc"
    using env
  proof
    assume "environ w' = environ w"
    from buildMount_env[OF b b' this] show ?thesis by simp
  next
    assume "environ w' = environ w1"
    with afterBuild_environ[OF m] have "environ w' = environ t" by simp
    from buildMount_again[OF b this] b' show ?thesis by simp
  qed
  show ?thesis
  proof (cases "kvs = []")
    case True
    with m m' kvs show ?thesis by (auto simp: afterBuild_def sbind_def slift_def sreturn_def)
  next
    case False
    obtain c where c: "openVault d g mc = Inr c"
      using m kvs False by (auto simp: afterBuild_def sbind_def slift_def split: sum.splits)
    let ?f = "fetchObject (resolveObjectVersions (depSdk d) (depSort d) c)
        (getKeyVaultObjectContent (depSdk d) (depCrypto d) p c) perm"
    obtain fss u where 1: "mapS ?f kvs t = (Inr fss, u)" "fs = concat fss"
      using m kvs False c
      by (auto simp: afterBuild_def fetchFiles_def sbind_def slift_def sreturn_def split: prod.splits sum.splits)
    obtain fss' u' where 2: "mapS ?f kvs t' = (Inr fss', u')" "fs' = concat fss'"
      using m' mc kvs False c
      by (auto simp: afterBuild_def fetchFiles_def sbind_def slift_def sreturn_def split: prod.splits sum.splits)
    have "fss = fss'" using fetchAll_same[OF im apart[OF kvs] 1(1) 2(1)] ver 1(2) 2(2) by blast
    with 1(2) 2(2) show ?thesis by simp
  qed
qed

lemma Mount_again:
  assumes "readOnly (depSdk d)" "Mount d g order s req w = (r, w1)"
  shows "fst (Mount d g order s req w1) = r \<and> vault w1 = vault w \<and>
    environ (snd (Mount d g order s req w1)) = environ w1"
  using assms(2)
proof (cases "\<exists>attrib secret perm. unmarshalStringMap (reqAttributes req) = Inr attrib \<and>
    unmarshalStringMap (reqSecrets req) = Inr secret \<and> unmarshalFileMode (reqPermission req) = Inr perm")
  case True
  then obtain attrib secret perm where dec: "unmarshalStringMap (reqAttributes req) = Inr attrib"
    "unmarshalStringMap (reqSecrets req) = Inr secret" "unmarshalFileMode (reqPermission req) = Inr perm" by blast
  let ?mount = "GetSecretsStoreObjectContent d g (srvProvider s) (attribMap attrib) (map_option order secret) perm"
  obtain q t where q: "?mount w = (q, t)" by fastforce
  have "w1 = t" using assms(2) dec q by (cases q) (auto simp: Mount_def case_prod_beta)
  obtain q' t' where q': "?mount t = (q', t')" by fastforce
  have "q' = q" "vault t = vault w" "environ t' = environ t"
    using mount_again[OF assms(1) q] q' by auto
  with assms(2) dec q q' \<open>w1 = t\<close> show ?thesis by (cases q) (auto simp: Mount_def case_prod_beta)
next
  case False
  then have "w1 = w" "\<And>w'. Mount d g order s req w' = (r, w')"
    using assms(2) by (auto simp: Mount_def split: sum.splits)
  then show ?thesis by simp
qed

section \<open>Properties\<close>


text \<open>
  Property C4. The object versions of a response identify its contents: the driver, which compares
  them to decide whether a rotation changed anything, misses nothing. Two successful mounts of the
  same request that report the same identifiers and versions have the same files, byte for byte,
  whatever happened to the vault in between; this includes objects synced in several versions, of
  which the two mounts may have found different ones. It takes a vault that never changes the
  material of a version, a request whose objects can be told apart (each is synced in one version,
  or no name has a slash and no two objects synced in several versions have the same type and
  name), and that the second mount starts with the process environment from before or after the first.
\<close>

theorem Mount_versions_identify:
  assumes "immutableVersions (depSdk d)"
    and apart: "\<And>attrib kvs. unmarshalStringMap (reqAttributes req) = Inr attrib \<Longrightarrow>
      parseObjects d (attribMap attrib) = Inr kvs \<Longrightarrow> toldApart kvs"
    and run: "Mount d g order s req w = (Inr (resp, None), w1)" "Mount d g order s req w' = (Inr (resp', None), w1')"
    and "environ w' = environ w \<or> environ w' = environ w1"
    and "respObjectVersion resp = respObjectVersion resp'"
  shows "respFiles resp = respFiles resp'"
proof -
  obtain attrib secret perm files where 1: "unmarshalStringMap (reqAttributes req) = Inr attrib"
    "unmarshalStringMap (reqSecrets req) = Inr secret" "unmarshalFileMode (reqPermission req) = Inr perm"
    "GetSecretsStoreObjectContent d g (srvProvider s) (attribMap attrib) (map_option order secret) perm w = (Inr files, w1)"
    "respFiles resp = map responseFileOf files" "respObjectVersion resp = map versionOf files"
    by (rule Mount_ok_files[OF run(1)])
  obtain files' where 2: "respFiles resp' = map responseFileOf files'" "respObjectVersion resp' = map versionOf files'"
    "GetSecretsStoreObjectContent d g (srvProvider s) (attribMap attrib) (map_option order secret) perm w' = (Inr files', w1')"
    by (rule Mount_ok_files[OF run(2)]) (use 1 in auto)
  have "map (\<lambda>v. (ovId v, ovVersion v)) (map versionOf files) = map (\<lambda>v. (ovId v, ovVersion v)) (map versionOf files')"
    using assms(6) 1(6) 2(2) by simp
  then have "map fileKey files = map fileKey files'" by (simp add: versionOf_def fileKey_def[abs_def] comp_def)
  from mount_same_versions[OF assms(1) apart[OF 1(1)] 1(4) 2(3) assms(5) this] 1(5) 2(1)
  show ?thesis by simp
qed

section \<open>Witnesses\<close>

lemma toyDeps_readOnly: "readOnly (depSdk (toyDeps []))"
  by (simp add: readOnly_def toyDeps_def toyKvSdk_def toyGetSecret_def)


text \<open>
  A vault with two versions of one secret, of which the request syncs both: its state is a count of
  the requests, which every request increases, so that no two mounts see the same vault.
\<close>

lemma toyRequest_attrib:
  assumes "unmarshalStringMap (reqAttributes toyRequest) = Inr attrib"
  shows "attribMap attrib = toyAttrib"
  using assms by (simp add: toyRequest_def unmarshal_marshal[OF toyPairs_valid] attribMap_def flip: toyPairs_map) auto

definition rotatingDeps :: "(nat, string, string list, nat, string) deps" where
  "rotatingDeps = \<lparr>
     depSdk = \<lparr>NewSecretsClient = (\<lambda>u c. Inr 0), NewKeysClient = (\<lambda>u c. Inr 0), NewCertificatesClient = (\<lambda>u c. Inr 0),
       SdkGetSecret = (\<lambda>h n ver k. (Inr \<lparr>sbValue = Some (''value '' @ ver), sbID = Some ver, sbKid = None,
          sbContentType = Some (Itoa k)\<rparr>, Suc k)),
       SdkGetKey = (\<lambda>h n v s. (Inl (External ''404''), s)), SdkGetCertificate = (\<lambda>h n v s. (Inl (External ''404''), s)),
       NewListSecretVersionsPager = (\<lambda>h n. 1), NewListKeyVersionsPager = (\<lambda>h n. 0),
       NewListCertificateVersionsPager = (\<lambda>h n. 0), More = (\<lambda>p. 0 < p),
       NextPage = (\<lambda>p k. (Inr [toyItem None 1 ''a'', toyItem None 2 ''b''], p - 1, Suc k)),
       SecretIDVersion = id, KeyIDVersion = id, CertificateIDVersion = id\<rparr>,
     depIdentity = toySdk, depCrypto = toyLib,
     depEnvironmentFromName = (\<lambda>env n. Inl (External ''no such cloud'')),
     depUnmarshalArray = depUnmarshalArray (toyDeps []),
     depUnmarshalObject = (\<lambda>s. rbind (depUnmarshalObject (toyDeps []) s) (\<lambda>kv. Inr (kv\<lparr>ObjectVersionHistory := 2\<rparr>))),
     depSort = insertionSort\<rparr>"

definition rotatingObject :: keyVaultObject where
  "rotatingObject = (toyObject ''secret'' [])\<lparr>ObjectVersionHistory := 2\<rparr>"

lemma rotating_parse: "parseObjects rotatingDeps toyAttrib = Inr [rotatingObject]"
proof -
  have "the (formatKeyVaultObject (Some ((toyObject '' secret '' [])\<lparr>ObjectVersionHistory := 2\<rparr>))) = rotatingObject" by code_simp
  moreover have "validate rotatingObject = Inr ()" by code_simp
  ultimately show ?thesis
    by (simp add: parseObjects_def parseObject_def toy_params GetObjectsArray_def rotatingDeps_def toyDeps_def)
qed

lemma rotating_versions:
  "\<exists>w1. resolveObjectVersions (depSdk rotatingDeps) insertionSort toyClient rotatingObject w =
     (Inr [numbered rotatingObject 0 \<lparr>kvVersion = ''b'', kvCreated = 2\<rparr>, numbered rotatingObject 1 \<lparr>kvVersion = ''a'', kvCreated = 1\<rparr>], w1)"
proof -
  let ?vs = "[\<lparr>kvVersion = ''a'', kvCreated = 1\<rparr>, \<lparr>kvVersion = ''b'', kvCreated = 2\<rparr>]"
  have "pagerLoop (depSdk rotatingDeps) id 1 [] k = Some (Inr ?vs, Suc k)" for k
    by (subst pagerLoop.simps, simp add: rotatingDeps_def toyItem_def pageStep_def versionStep_def,
        subst pagerLoop.simps, simp)
  then have "getKeyVaultObjectVersions (depSdk rotatingDeps) toyClient rotatingObject w =
     (Inr ?vs, w\<lparr>vault := Suc (vault w), reports := reports w @ [\<lparr>repObjectType = ''secret'', repObjectName = ''s'', repError = None\<rparr>]\<rparr>)"
    by (simp add: getKeyVaultObjectVersions_def reportRequest_def onVault_def getSecretVersions_def GetSecretVersions_def
        rotatingObject_def toyObject_def VaultObjectTypeSecret_def orNoReturn_def) (simp add: rotatingDeps_def)
  moreover have "getLatestNKeyVaultObjects insertionSort rotatingObject ?vs =
      [numbered rotatingObject 0 \<lparr>kvVersion = ''b'', kvCreated = 2\<rparr>, numbered rotatingObject 1 \<lparr>kvVersion = ''a'', kvCreated = 1\<rparr>]"
    by code_simp
  moreover have "\<not> IsSyncingSingleVersion rotatingObject" by code_simp
  ultimately show ?thesis by (simp add: resolveObjectVersions_def sbind_def sreturn_def)
qed

lemma rotating_read:
  assumes "k = numbered rotatingObject i v"
  shows "\<exists>w1 f. fetchResolved (getKeyVaultObjectContent (depSdk rotatingDeps) lib p c) perm k w = (Inr [f], w1) \<and>
     versionOf f = \<lparr>ovId = ''secret/s/'' @ Itoa i, ovVersion = kvVersion v\<rparr>"
proof -
  have k: "ObjectType k = ''secret''" "ObjectEncoding k = []" "ObjectVersion k = kvVersion v"
    using assms by (simp_all add: rotatingObject_def toyObject_def)
  have "\<not> IsSyncingSingleVersion rotatingObject" by code_simp
  then have "GetObjectUID k = ''secret/s/'' @ Itoa i"
    using assms numbered_UID[of rotatingObject i v] by (simp add: rotatingObject_def toyObject_def)
  then show ?thesis using k
    by (simp add: fetchResolved_def sbind_def slift_def getKeyVaultObjectContent_def reportRequest_def onVault_def
        getSecret_def GetSecret_def secretObjects_def rotatingDeps_def VaultObjectTypeSecret_def fileOf_def
        getContentBytes_def versionOf_def)
qed

lemma rotating_Mount:
  obtains w1 resp where
    "Mount rotatingDeps toyGlobals id toyServer toyRequest w = (Inr (resp, None), w1)"
    "respObjectVersion resp = [\<lparr>ovId = ''secret/s/0'', ovVersion = ''b''\<rparr>, \<lparr>ovId = ''secret/s/1'', ovVersion = ''a''\<rparr>]"
proof -
  have "NewClient (depSdk rotatingDeps) cred u = Inr toyClient" for cred u
    by (simp add: NewClient_def rotatingDeps_def toyClient_def)
  then obtain mc t mode where st: "readParameters toyAttrib = Inr mode"
    "buildMount rotatingDeps toyProvider toyAttrib None mode w = (Inr mc, t)" "openVault rotatingDeps toyGlobals mc = Inr toyClient"
    using toy_stages_any[OF _ rotating_parse, of toyClient w] by (auto simp: mountStages_def) (auto simp: rotatingDeps_def)
  obtain w1 where v: "resolveObjectVersions (depSdk rotatingDeps) insertionSort toyClient rotatingObject t =
     (Inr [numbered rotatingObject 0 \<lparr>kvVersion = ''b'', kvCreated = 2\<rparr>, numbered rotatingObject 1 \<lparr>kvVersion = ''a'', kvCreated = 1\<rparr>], w1)"
    using rotating_versions by blast
  let ?fetch = "fetchResolved (getKeyVaultObjectContent (depSdk rotatingDeps) (depCrypto rotatingDeps) toyProvider toyClient) 420"
  obtain w2 f where f: "?fetch (numbered rotatingObject 0 \<lparr>kvVersion = ''b'', kvCreated = 2\<rparr>) w1 = (Inr [f], w2)"
    "versionOf f = \<lparr>ovId = ''secret/s/'' @ Itoa 0, ovVersion = ''b''\<rparr>" using rotating_read[OF refl] by fastforce
  obtain w3 h where h: "?fetch (numbered rotatingObject 1 \<lparr>kvVersion = ''a'', kvCreated = 1\<rparr>) w2 = (Inr [h], w3)"
    "versionOf h = \<lparr>ovId = ''secret/s/'' @ Itoa 1, ovVersion = ''a''\<rparr>" using rotating_read[OF refl] by fastforce
  have "depSort rotatingDeps = insertionSort" by (simp add: rotatingDeps_def)
  then have "GetSecretsStoreObjectContent rotatingDeps toyGlobals toyProvider toyAttrib None 420 w = (Inr [f, h], w3)"
    using v f(1) h(1)
    by (simp add: mount_afterBuild st sbind_def slift_def afterBuild_def rotating_parse fetchFiles_def fetchObject_def sreturn_def)
  moreover have "unmarshalFileMode (Itoa 420) = Inr 420" using unmarshalFileMode_Itoa[of 420] by simp
  ultimately have "Mount rotatingDeps toyGlobals id toyServer toyRequest w =
      (Inr (\<lparr>respObjectVersion = [versionOf f, versionOf h], respFiles = [responseFileOf f, responseFileOf h]\<rparr>, None), w3)"
    by (simp add: Mount_def toyRequest_def unmarshal_marshal[OF toyPairs_valid] null_map attribMap_def toyPairs_map
        toyServer_def responseLoop_map)
  moreover have "Itoa 0 = ''0''" "Itoa 1 = ''1''" by code_simp+
  ultimately show thesis using f(2) h(2) by (intro that) auto
qed

lemma rotatingDeps_immutable: "immutableVersions (depSdk rotatingDeps)"
  by (auto simp: rotatingDeps_def immutableVersions_def immutableSecrets_def immutableKeys_def
      immutableCertificates_def sameSecret_def)

definition rotatingWorld :: "nat \<Rightarrow> nat world" where
  "rotatingWorld k = \<lparr>environ = Map.empty, reports = [], vault = k\<rparr>"

theorem Mount_versions_identify_witness:
  "\<exists>resp resp'. fst (Mount rotatingDeps toyGlobals id toyServer toyRequest (rotatingWorld 0)) = Inr (resp, None) \<and>
    fst (Mount rotatingDeps toyGlobals id toyServer toyRequest (rotatingWorld 7)) = Inr (resp', None) \<and>
    respFiles resp = respFiles resp' \<and> length (respObjectVersion resp) = 2"
proof -
  obtain w1 resp where 1: "Mount rotatingDeps toyGlobals id toyServer toyRequest (rotatingWorld 0) = (Inr (resp, None), w1)"
    "respObjectVersion resp = [\<lparr>ovId = ''secret/s/0'', ovVersion = ''b''\<rparr>, \<lparr>ovId = ''secret/s/1'', ovVersion = ''a''\<rparr>]"
    by (rule rotating_Mount)
  obtain w2 resp' where 2: "Mount rotatingDeps toyGlobals id toyServer toyRequest (rotatingWorld 7) = (Inr (resp', None), w2)"
    "respObjectVersion resp' = [\<lparr>ovId = ''secret/s/0'', ovVersion = ''b''\<rparr>, \<lparr>ovId = ''secret/s/1'', ovVersion = ''a''\<rparr>]"
    by (rule rotating_Mount)
  have "toldApart kvs"
    if "unmarshalStringMap (reqAttributes toyRequest) = Inr attrib" "parseObjects rotatingDeps (attribMap attrib) = Inr kvs"
    for attrib kvs
    using that rotating_parse by (auto simp: toyRequest_attrib rotatingObject_def toyObject_def toldApart_def)
  from Mount_versions_identify[OF rotatingDeps_immutable this 1(1) 2(1)] 1 2 show ?thesis
    by (auto simp: rotatingWorld_def)
qed

end
