(* ===== verification/Concurrent.thy ===== *)
theory Concurrent
  imports Rotation Robust
begin

text \<open>
  Whole mounts in flight at the same time. A mount advances from one access of the shared state to
  the next: it sets the environment variable, it reads the environment, it lists the versions of an
  object, it requests an object; between these it computes on its own data. \<open>advance\<close> is one such
  step of one mount, and \<open>cstep\<close> lets one of the mounts in flight, named by its index, make its
  step. A step that panics takes the process down, so that no mount makes another step; a call that
  does not return hangs its own mount only. A run follows a schedule, the list of the indices of the
  mounts that made the steps. The steps of one mount put together are the sequential operation, and
  the interleaving is harmless: when the outside calls return, reading does not change the vault and
  the mounts agree on the cloud environment file, each mount has finished after a number of its own
  steps that no schedule changes, with the result that it would have had alone.
\<close>

section \<open>Steps of a mount\<close>

datatype 'h progress =
    Arrived
  | Configuring identityMode
  | Fetching "'h kvClient" "keyVaultObject list" "keyVaultObject list" "secretFile list"
  | Finished "secretFile list result"
  | Panicked go_error
  | Hanging

record 'h mounting =
  mtAttrib :: params
  mtSecrets :: "(string \<times> string) list option"
  mtPermission :: int32
  mtProgress :: "'h progress"

text \<open>
  After the environment variable is set: the configuration, the requested objects and the client.
  Only the first line reads shared state.
\<close>

definition prepare ::
  "('v, 't, 'c, 'h, 'k) deps \<Rightarrow> 't authGlobals \<Rightarrow> provider \<Rightarrow> 'h mounting \<Rightarrow> identityMode \<Rightarrow> (string \<rightharpoonup> string) \<Rightarrow>
   'h progress result" where
  "prepare d g p m mode env =
     rbind (wrapErr (wrapf ''cloudName %s is not valid, error: %w'' [GetCloudName (mtAttrib m)])
              (parseAzureEnvironment (depEnvironmentFromName d) p env (GetCloudName (mtAttrib m)))) (\<lambda>cloud.
     rbind (wrapErr (wrapf ''failed to build auth config for mode %s: %w'' [modeString mode])
              (buildAuthConfig unmarshalTokens (authInput (mtAttrib m) (mtSecrets m) mode))) (\<lambda>authConfig.
     rbind (parseObjects d (mtAttrib m)) (\<lambda>kvs.
     if kvs = [] then Inr (Finished (Inr []))
     else rbind (openVault d g \<lparr>mcKeyvaultName = GetKeyVaultName (mtAttrib m), mcAzureCloudEnvironment = cloud,
              mcAuthConfig = authConfig, mcTenantID = GetTenantID (mtAttrib m),
              mcPodName = GetPodName (mtAttrib m), mcPodNamespace = GetPodNamespace (mtAttrib m)\<rparr>) (\<lambda>c.
       Inr (Fetching c [] kvs [])))))"

text \<open>
  A step that fails finishes the mount with its error, one that panics takes the process down, and
  one with a call that does not return hangs, before its effects.
\<close>

definition orFinish :: "'v world \<Rightarrow> 'h progress result \<times> 'v world \<Rightarrow> 'h progress \<times> 'v world" where
  "orFinish w0 rw =
     (case rw of
        (Inl e, w) \<Rightarrow> if e = noReturn then (Hanging, w0) else if is_panic e then (Panicked e, w) else (Finished (Inl e), w)
      | (Inr pr, w) \<Rightarrow> (pr, w))"

fun advance ::
  "('v, 't, 'c, 'h, 'k) deps \<Rightarrow> 't authGlobals \<Rightarrow> provider \<Rightarrow> 'h mounting \<Rightarrow> 'h progress \<Rightarrow> 'v world \<Rightarrow>
   'h progress \<times> 'v world" where
  "advance d g p m Arrived w =
     orFinish w (sbind (slift (readParameters (mtAttrib m))) (\<lambda>mode w1.
       case setAzureEnvironmentFilePath (GetCloudEnvFileName (mtAttrib m)) w1 of
         (r, w') \<Rightarrow> (rbind (wrapErr (wrapf ''failed to set AZURE_ENVIRONMENT_FILEPATH env to %s, error %w''
                       [GetCloudEnvFileName (mtAttrib m)]) r) (\<lambda>_. Inr (Configuring mode)), w')) w)"
| "advance d g p m (Configuring mode) w = orFinish w (prepare d g p m mode (environ w), w)"
| "advance d g p m (Fetching c [] [] files) w = (Finished (Inr files), w)"
| "advance d g p m (Fetching c [] (kv # kvs) files) w =
     orFinish w (sbind (resolveObjectVersions (depSdk d) (depSort d) c kv)
       (\<lambda>ks. sreturn (Fetching c ks kvs files)) w)"
| "advance d g p m (Fetching c (k # ks) kvs files) w =
     orFinish w (sbind (fetchResolved (getKeyVaultObjectContent (depSdk d) (depCrypto d) p c) (mtPermission m) k)
       (\<lambda>fs. sreturn (Fetching c ks kvs (files @ fs))) w)"
| "advance d g p m pr w = (pr, w)"

text \<open>Nothing recovers a panic of a handler: it ends the process and with it all the mounts.\<close>

definition crashed :: "'h mounting list \<Rightarrow> bool" where
  "crashed ms \<longleftrightarrow> list_ex (\<lambda>m. case mtProgress m of Panicked _ \<Rightarrow> True | _ \<Rightarrow> False) ms"

inductive cstep ::
  "('v, 't, 'c, 'h, 'k) deps \<Rightarrow> 't authGlobals \<Rightarrow> provider \<Rightarrow> nat \<Rightarrow> 'v world \<times> 'h mounting list \<Rightarrow>
   'v world \<times> 'h mounting list \<Rightarrow> bool" for d g p where
  cstepI: "\<not> crashed ms \<Longrightarrow> i < length ms \<Longrightarrow>
     advance d g p (ms ! i) (mtProgress (ms ! i)) w = (pr, w') \<Longrightarrow>
     cstep d g p i (w, ms) (w', ms[i := (ms ! i)\<lparr>mtProgress := pr\<rparr>])"

inductive_cases cstepE: "cstep d g p i t t'"

text \<open>A run over a schedule, from any number of mounts in flight.\<close>

inductive crun ::
  "('v, 't, 'c, 'h, 'k) deps \<Rightarrow> 't authGlobals \<Rightarrow> provider \<Rightarrow> 'v world \<times> 'h mounting list \<Rightarrow> nat list \<Rightarrow>
   'v world \<times> 'h mounting list \<Rightarrow> bool" for d g p where
  crun_start: "crun d g p t [] t"
| crun_step: "crun d g p t sched t1 \<Longrightarrow> cstep d g p i t1 t2 \<Longrightarrow> crun d g p t (sched @ [i]) t2"

section \<open>The steps put together\<close>

text \<open>What is left to do, as the sequential operation does it.\<close>

fun carryOut ::
  "('v, 't, 'c, 'h, 'k) deps \<Rightarrow> 't authGlobals \<Rightarrow> provider \<Rightarrow> 'h mounting \<Rightarrow> 'h progress \<Rightarrow> ('v world, secretFile list) io" where
  "carryOut d g p m Arrived =
     GetSecretsStoreObjectContent d g p (mtAttrib m) (mtSecrets m) (mtPermission m)"
| "carryOut d g p m (Configuring mode) =
     (\<lambda>w. sbind (slift (prepare d g p m mode (environ w))) (\<lambda>pr.
        case pr of
          Fetching c ks kvs files \<Rightarrow>
            fetchFiles (resolveObjectVersions (depSdk d) (depSort d) c)
              (getKeyVaultObjectContent (depSdk d) (depCrypto d) p c) (mtPermission m) kvs
        | _ \<Rightarrow> sreturn []) w)"
| "carryOut d g p m (Fetching c ks kvs files) =
     sbind (mapS (fetchResolved (getKeyVaultObjectContent (depSdk d) (depCrypto d) p c) (mtPermission m)) ks) (\<lambda>fss.
     sbind (fetchFiles (resolveObjectVersions (depSdk d) (depSort d) c)
              (getKeyVaultObjectContent (depSdk d) (depCrypto d) p c) (mtPermission m) kvs) (\<lambda>rest.
     sreturn (files @ concat fss @ rest)))"
| "carryOut d g p m (Finished r) = slift r"
| "carryOut d g p m (Panicked e) = slift (Inl e)"
| "carryOut d g p m Hanging = slift (Inl noReturn)"

lemma fetchFiles_simps:
  "fetchFiles resolve fetch perm [] w = (Inr [], w)"
  "fetchFiles resolve fetch perm (kv # kvs) w =
     sbind (resolve kv) (\<lambda>ks. sbind (mapS (fetchResolved fetch perm) ks) (\<lambda>fss.
     sbind (fetchFiles resolve fetch perm kvs) (\<lambda>rest. sreturn (concat fss @ rest)))) w"
  by (auto simp: fetchFiles_def fetchObject_def sbind_def sreturn_def split: prod.splits sum.splits)

lemma prepare_progress:
  assumes "prepare d g p m mode env = Inr pr"
  shows "pr = Finished (Inr []) \<or> (\<exists>c kvs. pr = Fetching c [] kvs [])"
  using assms by (auto simp: prepare_def result_simps split: if_splits)

text \<open>
  A step does the first part of what is left, on any vault: carrying out the rest gives what it
  would have given before, unless the step hangs, and then carrying it out does not return either.
\<close>

definition hangs :: "'a result \<times> 'v world \<Rightarrow> bool" where
  "hangs rw \<longleftrightarrow> fst rw = Inl noReturn"

lemma orFinish_carryOut:
  assumes "orFinish w rw = (pr', w')"
    and "\<And>e. fst rw = Inl e \<Longrightarrow> out = (Inl e, snd rw)"
    and "\<And>pr. fst rw = Inr pr \<Longrightarrow> out = carryOut d g p m pr (snd rw)"
  shows "carryOut d g p m pr' w' = out \<or> pr' = Hanging \<and> hangs out"
  using assms by (cases rw) (auto simp: orFinish_def hangs_def slift_def split: sum.splits if_splits)

lemma advance_carryOut_Arrived:
  assumes "advance d g p m Arrived w = (pr', w')"
  shows "carryOut d g p m pr' w' = carryOut d g p m Arrived w \<or> pr' = Hanging \<and> hangs (carryOut d g p m Arrived w)"
proof -
  obtain r w1 where s: "setAzureEnvironmentFilePath (GetCloudEnvFileName (mtAttrib m)) w = (r, w1)" by fastforce
  show ?thesis
    by (rule orFinish_carryOut[OF assms[unfolded advance.simps]])
      (cases "readParameters (mtAttrib m)"; cases r; auto simp: s sbind_def slift_def sreturn_def GetSecretsStoreObjectContent_def
        buildMount_def prepare_def rbind_def split: sum.splits prod.splits)+
qed

lemma advance_carryOut_Configuring:
  assumes "advance d g p m (Configuring mode) w = (pr', w')"
  shows "carryOut d g p m pr' w' = carryOut d g p m (Configuring mode) w \<or>
    pr' = Hanging \<and> hangs (carryOut d g p m (Configuring mode) w)"
  by (rule orFinish_carryOut[OF assms[unfolded advance.simps]])
    (auto simp: sbind_def slift_def sreturn_def dest!: prepare_progress split: prod.splits sum.splits)

lemma advance_carryOut_Fetching:
  assumes "advance d g p m (Fetching c ks kvs files) w = (pr', w')"
  shows "carryOut d g p m pr' w' = carryOut d g p m (Fetching c ks kvs files) w \<or>
    pr' = Hanging \<and> hangs (carryOut d g p m (Fetching c ks kvs files) w)"
proof (cases ks)
  case Nil
  show ?thesis
  proof (cases kvs)
    case Nil
    with \<open>ks = []\<close> assms show ?thesis by (auto simp: sbind_def sreturn_def slift_def fetchFiles_simps)
  next
    case (Cons kv kvs')
    show ?thesis
      by (rule orFinish_carryOut[OF assms[unfolded \<open>ks = []\<close> Cons advance.simps]])
        (auto simp: \<open>ks = []\<close> Cons sbind_def sreturn_def slift_def fetchFiles_simps split: prod.splits sum.splits)
  qed
next
  case (Cons k ks')
  show ?thesis
    by (rule orFinish_carryOut[OF assms[unfolded Cons advance.simps]])
      (auto simp: Cons sbind_def sreturn_def slift_def split: prod.splits sum.splits)
qed

lemma advance_carryOut:
  assumes "advance d g p m pr w = (pr', w')"
  shows "carryOut d g p m pr' w' = carryOut d g p m pr w \<or> pr' = Hanging \<and> hangs (carryOut d g p m pr w)"
proof (cases pr)
  case Arrived
  with assms show ?thesis using advance_carryOut_Arrived by blast
next
  case (Configuring mode)
  with assms show ?thesis using advance_carryOut_Configuring by blast
next
  case (Fetching c ks kvs files)
  with assms show ?thesis using advance_carryOut_Fetching by blast
qed (use assms in auto)

section \<open>A mount alone\<close>

definition aloneStep ::
  "('v, 't, 'c, 'h, 'k) deps \<Rightarrow> 't authGlobals \<Rightarrow> provider \<Rightarrow> 'h mounting \<Rightarrow> 'h progress \<times> 'v world \<Rightarrow>
   'h progress \<times> 'v world" where
  "aloneStep d g p m s = advance d g p m (fst s) (snd s)"

definition alone ::
  "('v, 't, 'c, 'h, 'k) deps \<Rightarrow> 't authGlobals \<Rightarrow> provider \<Rightarrow> 'h mounting \<Rightarrow> nat \<Rightarrow> 'h progress \<times> 'v world \<Rightarrow>
   'h progress \<times> 'v world" where
  "alone d g p m n = (aloneStep d g p m ^^ n)"

lemma alone_simps [simp]:
  "alone d g p m 0 s = s" "alone d g p m (Suc n) s = aloneStep d g p m (alone d g p m n s)"
  by (simp_all add: alone_def)

lemma alone_first: "alone d g p m (Suc n) s = alone d g p m n (aloneStep d g p m s)"
  by (simp only: alone_def funpow_Suc_right comp_apply)

lemma alone_add: "alone d g p m (k + n) s = alone d g p m k (alone d g p m n s)"
  by (simp add: alone_def funpow_add)

text \<open>Where a mount stops.\<close>

definition halted :: "'h progress \<Rightarrow> bool" where
  "halted pr = (case pr of Finished _ \<Rightarrow> True | Panicked _ \<Rightarrow> True | Hanging \<Rightarrow> True | _ \<Rightarrow> False)"

lemma halted_stays: "halted (fst s) \<Longrightarrow> alone d g p m n s = s"
  by (cases s; induction n) (auto simp: aloneStep_def halted_def split: progress.splits)

lemma halted_unique:
  assumes "halted (fst (alone d g p m k s))" "halted (fst (alone d g p m n s))"
  shows "alone d g p m k s = alone d g p m n s"
proof -
  have "alone d g p m j s = alone d g p m i s" if "halted (fst (alone d g p m i s))" "i \<le> j" for i j
    using halted_stays[OF that(1), of d g p m "j - i"] that(2) alone_add[of d g p m "j - i" i s] by simp
  with assms show ?thesis by (metis nle_le)
qed

definition halts :: "('v, 't, 'c, 'h, 'k) deps \<Rightarrow> 't authGlobals \<Rightarrow> provider \<Rightarrow> 'h mounting \<Rightarrow> 'h progress \<times> 'v world \<Rightarrow> bool" where
  "halts d g p m s \<longleftrightarrow> (\<exists>n. halted (fst (alone d g p m n s)))"

lemma halts_now: "halted pr \<Longrightarrow> halts d g p m (pr, w)"
  unfolding halts_def by (intro exI[of _ 0]) simp

lemma halts_step:
  assumes "halts d g p m (advance d g p m pr w)"
  shows "halts d g p m (pr, w)"
proof -
  from assms obtain n where "halted (fst (alone d g p m n (aloneStep d g p m (pr, w))))"
    by (auto simp: halts_def aloneStep_def)
  then have "halted (fst (alone d g p m (Suc n) (pr, w)))" by (simp only: alone_first)
  then show ?thesis unfolding halts_def by blast
qed

lemma halts_orFinish:
  assumes "\<And>pr. fst rw = Inr pr \<Longrightarrow> halts d g p m (pr, snd rw)"
  shows "halts d g p m (orFinish w rw)"
  using assms by (cases rw) (auto simp: orFinish_def halted_def intro!: halts_now split: sum.splits)

lemma Fetching_halts: "halts d g p m (Fetching c ks kvs files, w)"
proof (induction kvs arbitrary: ks files w)
  case Nil
  show ?case
  proof (induction ks arbitrary: files w)
    case Nil
    show ?case by (rule halts_step) (simp add: halts_now halted_def)
  next
    case (Cons k ks)
    show ?case
      by (rule halts_step) (auto simp: sbind_def sreturn_def split: prod.splits sum.splits
          intro!: halts_orFinish Cons.IH)
  qed
next
  case (Cons kv kvs)
  note outer = Cons.IH
  show ?case
  proof (induction ks arbitrary: files w)
    case Nil
    show ?case
      by (rule halts_step) (auto simp: sbind_def sreturn_def split: prod.splits sum.splits
          intro!: halts_orFinish outer)
  next
    case (Cons k ks)
    show ?case
      by (rule halts_step) (auto simp: sbind_def sreturn_def split: prod.splits sum.splits
          intro!: halts_orFinish Cons.IH)
  qed
qed

lemma Arrived_halts: "halts d g p m (Arrived, w)"
proof -
  have "halts d g p m (pr, u)" if "prepare d g p m mode env = Inr pr" for mode env pr u
    using prepare_progress[OF that] Fetching_halts halts_now[of "Finished (Inr [])"] by (auto simp: halted_def)
  then have "halts d g p m (Configuring mode, u)" for mode u
    by (intro halts_step) (auto intro!: halts_orFinish)
  then show ?thesis
    by (intro halts_step) (auto simp: sbind_def slift_def result_simps split: prod.splits sum.splits
        intro!: halts_orFinish)
qed

lemma alone_carryOut:
  "alone d g p m n (pr, w) = (pr', w') \<Longrightarrow>
   carryOut d g p m pr' w' = carryOut d g p m pr w \<or> pr' = Hanging \<and> hangs (carryOut d g p m pr w)"
proof (induction n arbitrary: pr' w')
  case (Suc n)
  obtain pr1 w1 where 1: "alone d g p m n (pr, w) = (pr1, w1)" by fastforce
  with Suc.prems have "advance d g p m pr1 w1 = (pr', w')" by (simp add: aloneStep_def)
  with advance_carryOut[OF this] Suc.IH[OF 1] show ?case by auto
qed simp

lemma orFinish_panicked:
  "orFinish w rw = (Panicked e, w') \<Longrightarrow> (\<And>q. fst rw = Inr q \<Longrightarrow> q \<noteq> Panicked e) \<Longrightarrow> is_panic e"
  by (cases rw) (auto simp: orFinish_def split: sum.splits if_splits)

lemma advance_panicked:
  assumes "advance d g p m pr w = (Panicked e, w')"
  shows "pr = Panicked e \<or> is_panic e"
proof (cases "(d, g, p, m, pr, w)" rule: advance.cases)
  case 1
  with assms show ?thesis
    by (auto simp: sbind_def slift_def result_simps dest!: orFinish_panicked split: sum.splits prod.splits)
next
  case 2
  with assms show ?thesis by (auto dest!: orFinish_panicked dest: prepare_progress)
qed (use assms in \<open>auto simp: sbind_def sreturn_def dest!: orFinish_panicked split: sum.splits prod.splits\<close>)

lemma alone_panicked: "alone d g p m n (Arrived, w) = (Panicked e, w') \<Longrightarrow> is_panic e"
proof (induction n arbitrary: w')
  case (Suc n)
  obtain pr u where "alone d g p m n (Arrived, w) = (pr, u)" by fastforce
  with Suc advance_panicked[of d g p m pr u e w'] show ?case by (auto simp: aloneStep_def)
qed simp

text \<open>
  Alone, a mount that makes its steps one after the other is the sequential operation: it stops with
  the result of the operation and in its state, or, where the operation does not return, hanging.
\<close>

lemma alone_mount:
  assumes "GetSecretsStoreObjectContent d g p (mtAttrib m) (mtSecrets m) (mtPermission m) w = (r, w')" "calm r"
  shows "\<exists>n. alone d g p m n (Arrived, w) = (Finished r, w')"
proof -
  obtain n pr u where n: "alone d g p m n (Arrived, w) = (pr, u)" "halted pr"
    using Arrived_halts[of d g p m w] unfolding halts_def by (metis prod.collapse)
  have "\<not> hangs (r, w')" using assms(2) by (auto simp: hangs_def noReturn_def)
  with alone_carryOut[OF n(1)] assms(1) have "carryOut d g p m pr u = (r, w')" by auto
  moreover have "r \<noteq> Inl noReturn" using assms(2) by (auto simp: noReturn_def)
  moreover have "pr = Panicked e \<Longrightarrow> is_panic e" for e
    using n(1) alone_panicked by blast
  ultimately have "pr = Finished r \<and> u = w'" using n(2) assms(2)
    by (cases pr) (auto simp: halted_def slift_def)
  with n(1) show ?thesis by blast
qed

section \<open>Interleavings\<close>

text \<open>The environment once the variable is set; a name with a NUL byte is refused.\<close>

definition envAfter :: "string \<Rightarrow> (string \<rightharpoonup> string) \<Rightarrow> string \<rightharpoonup> string" where
  "envAfter f env = (if f = [] \<or> CHR 0x00 \<in> set f then env else env(EnvironmentFilepathName \<mapsto> f))"

lemma envAfter_idem [simp]: "envAfter f (envAfter f env) = envAfter f env"
  by (simp add: envAfter_def)

lemma setAzureEnvironmentFilePath_eq:
  "setAzureEnvironmentFilePath f w =
     (if CHR 0x00 \<in> set f then Inl (External ''setenv: invalid argument'') else Inr (), w\<lparr>environ := envAfter f (environ w)\<rparr>)"
  by (auto simp: setAzureEnvironmentFilePath_def Setenv_def envAfter_def sreturn_def)

lemma steady_resolve: "readOnly sdk \<Longrightarrow> steady (resolveObjectVersions sdk sortf c kv)"
  unfolding resolveObjectVersions_def by (auto intro!: steady_intros steady_versions)

lemma steady_fetchResolved: "readOnly sdk \<Longrightarrow> steady (fetchResolved (getKeyVaultObjectContent sdk lib p c) perm k)"
  unfolding fetchResolved_def by (auto intro!: steady_intros steady_content)

lemma orFinish_steady:
  assumes "steady n"
  shows "vault w' = vault w \<Longrightarrow> fst (orFinish w' (n w')) = fst (orFinish w (n w))"
    and "orFinish w (n w) = (pr, w') \<Longrightarrow> vault w' = vault w \<and> environ w' = environ w"
proof -
  obtain r u where n: "n w = (r, u)" by fastforce
  note st = steadyD[OF assms n]
  show "fst (orFinish w' (n w')) = fst (orFinish w (n w))" if "vault w' = vault w"
    using st(3)[OF that] n by (cases "n w'") (auto simp: orFinish_def split: sum.splits)
  show "vault w' = vault w \<and> environ w' = environ w" if "orFinish w (n w) = (pr, w')"
    using that st(1,2) n by (auto simp: orFinish_def split: sum.splits if_splits)
qed

text \<open>What a step does depends on the vault and, when it reads the environment, on that.\<close>

lemma advance_view:
  assumes ro: "readOnly (depSdk d)" and v: "vault w' = vault w"
    and e: "\<And>mode. pr = Configuring mode \<Longrightarrow> environ w' = environ w"
  shows "fst (advance d g p m pr w') = fst (advance d g p m pr w)"
proof (cases "(d, g, p, m, pr, w)" rule: advance.cases)
  case 1
  then show ?thesis
    by (auto simp: orFinish_def sbind_def slift_def setAzureEnvironmentFilePath_eq split: sum.splits)
next
  case 2
  with e show ?thesis by (auto simp: orFinish_def split: sum.splits)
next
  case 4
  then show ?thesis
    using orFinish_steady(1)[OF steady_sbind[OF steady_resolve[OF ro] steady_sreturn] v] by simp
next
  case 5
  then show ?thesis
    using orFinish_steady(1)[OF steady_sbind[OF steady_fetchResolved[OF ro] steady_sreturn] v] by simp
qed auto

lemma advance_frame:
  assumes ro: "readOnly (depSdk d)" and step: "advance d g p m pr w = (pr', w')"
  shows "vault w' = vault w \<and>
    (environ w' = environ w \<or> environ w' = envAfter (GetCloudEnvFileName (mtAttrib m)) (environ w)) \<and>
    (\<forall>mode. pr' = Configuring mode \<longrightarrow> environ w' = envAfter (GetCloudEnvFileName (mtAttrib m)) (environ w))"
proof (cases "(d, g, p, m, pr, w)" rule: advance.cases)
  case 1
  with step show ?thesis
    by (auto simp: orFinish_def sbind_def slift_def setAzureEnvironmentFilePath_eq split: sum.splits if_splits)
next
  case 2
  with step show ?thesis by (auto simp: orFinish_def dest!: prepare_progress split: sum.splits if_splits)
next
  case (4 d' g' p' m' c kv kvs files w0)
  let ?n = "sbind (resolveObjectVersions (depSdk d) (depSort d) c kv) (\<lambda>ks. sreturn (Fetching c ks kvs files))"
  have o: "orFinish w (?n w) = (pr', w')" using step 4 by simp
  have "pr' \<noteq> Configuring mode" for mode
    using o by (auto simp: orFinish_def sbind_def sreturn_def split: sum.splits if_splits prod.splits)
  then show ?thesis using orFinish_steady(2)[OF steady_sbind[OF steady_resolve[OF ro] steady_sreturn] o] by blast
next
  case (5 d' g' p' m' c k ks kvs files w0)
  let ?n = "sbind (fetchResolved (getKeyVaultObjectContent (depSdk d) (depCrypto d) p c) (mtPermission m) k)
       (\<lambda>fs. sreturn (Fetching c ks kvs (files @ fs)))"
  have o: "orFinish w (?n w) = (pr', w')" using step 5 by simp
  have "pr' \<noteq> Configuring mode" for mode
    using o by (auto simp: orFinish_def sbind_def sreturn_def split: sum.splits if_splits prod.splits)
  then show ?thesis using orFinish_steady(2)[OF steady_sbind[OF steady_fetchResolved[OF ro] steady_sreturn] o] by blast
qed (use step in auto)

text \<open>
  What a mount in the given progress may find: the vault of the first state, an environment that
  differs at most in the variable, and, when it is about to read the environment, the variable set.
\<close>

definition inView :: "'v world \<Rightarrow> string \<Rightarrow> 'h progress \<Rightarrow> 'v world \<Rightarrow> bool" where
  "inView w0 f pr w \<longleftrightarrow> vault w = vault w0 \<and> envAfter f (environ w) = envAfter f (environ w0) \<and>
     (\<forall>mode. pr = Configuring mode \<longrightarrow> environ w = envAfter f (environ w0))"

lemma inView_own:
  assumes "readOnly (depSdk d)" "advance d g p m pr w = (pr', w')" "GetCloudEnvFileName (mtAttrib m) = f" "inView w0 f pr w"
  shows "inView w0 f pr' w'"
  using advance_frame[OF assms(1,2)] assms(3,4) by (auto simp: inView_def)

lemma inView_other:
  assumes "readOnly (depSdk d)" "advance d g p m pr w = (pr', w')" "GetCloudEnvFileName (mtAttrib m) = f" "inView w0 f q w"
  shows "inView w0 f q w'"
  using advance_frame[OF assms(1,2)] assms(3,4) by (auto simp: inView_def)

lemma inView_advance:
  assumes "readOnly (depSdk d)" "inView w0 f pr w" "inView w0 f pr u"
  shows "fst (advance d g p m pr w) = fst (advance d g p m pr u)"
  by (rule advance_view[OF assms(1)]) (use assms(2,3) in \<open>auto simp: inView_def\<close>)

lemma alone_inView:
  assumes "readOnly (depSdk d)" "GetCloudEnvFileName (mtAttrib m) = f"
  shows "inView w0 f (fst (alone d g p m n (Arrived, w0))) (snd (alone d g p m n (Arrived, w0)))"
proof (induction n)
  case (Suc n)
  obtain pr w where s: "alone d g p m n (Arrived, w0) = (pr, w)" by fastforce
  obtain pr' w' where a: "advance d g p m pr w = (pr', w')" by fastforce
  from inView_own[OF assms(1) a assms(2)] Suc s a show ?case by (simp add: aloneStep_def)
qed (simp add: inView_def)

lemma advance_progress [simp]: "advance d g p (m\<lparr>mtProgress := pr\<rparr>) pr' w = advance d g p m pr' w"
  by (cases "(d, g, p, m, pr', w)" rule: advance.cases) (auto simp: prepare_def cong: if_cong)

text \<open>
  In a run each mount is where it would be alone after as many steps as it has made, whatever the
  others did in between.
\<close>

definition inStep ::
  "('v, 't, 'c, 'h, 'k) deps \<Rightarrow> 't authGlobals \<Rightarrow> provider \<Rightarrow> 'v world \<Rightarrow> string \<Rightarrow> 'h mounting \<Rightarrow> nat \<Rightarrow> 'v world \<Rightarrow> 'h mounting \<Rightarrow> bool" where
  "inStep d g p w0 f m0 k w m \<longleftrightarrow>
     m = m0\<lparr>mtProgress := fst (alone d g p m0 k (Arrived, w0))\<rparr> \<and> inView w0 f (mtProgress m) w"

lemma inStep_own:
  assumes ro: "readOnly (depSdk d)" and f: "GetCloudEnvFileName (mtAttrib m0) = f"
    and m: "inStep d g p w0 f m0 k w m" and step: "advance d g p m (mtProgress m) w = (pr, w')"
  shows "inStep d g p w0 f m0 (Suc k) w' (m\<lparr>mtProgress := pr\<rparr>)"
proof -
  obtain q u where a: "alone d g p m0 k (Arrived, w0) = (q, u)" by fastforce
  then have q: "m = m0\<lparr>mtProgress := q\<rparr>" "inView w0 f q w" using m by (auto simp: inStep_def)
  then have s: "advance d g p m0 q w = (pr, w')" using step by simp
  have "inView w0 f q u" using alone_inView[OF ro f, of w0 g p k] a by simp
  from inView_advance[OF ro q(2) this, of g p m0] s have "fst (alone d g p m0 (Suc k) (Arrived, w0)) = pr"
    using a by (simp add: aloneStep_def)
  moreover have "inView w0 f pr w'" by (rule inView_own[OF ro s f q(2)])
  ultimately show ?thesis using q(1) by (simp add: inStep_def)
qed

lemma inStep_other:
  assumes "readOnly (depSdk d)" "GetCloudEnvFileName (mtAttrib n) = f"
    and "inStep d g p w0 f m0 k w m" "advance d g p n pr w = (pr', w')"
  shows "inStep d g p w0 f m0 k w' m"
  using inView_other[OF assms(1,4,2)] assms(3) by (auto simp: inStep_def)

lemma crun_inStep:
  assumes "crun d g p t sched t'" "t = (w0, ms0)" "readOnly (depSdk d)"
    and "\<And>m. m \<in> set ms0 \<Longrightarrow> mtProgress m = Arrived \<and> GetCloudEnvFileName (mtAttrib m) = f"
  shows "length (snd t') = length ms0 \<and>
    (\<forall>j<length ms0. inStep d g p w0 f (ms0 ! j) (count_list sched j) (fst t') (snd t' ! j))"
  using assms
proof (induction rule: crun.induct)
  case (crun_start t)
  have "inStep d g p w0 f (ms0 ! j) 0 w0 (ms0 ! j)" if "j < length ms0" for j
    using crun_start(3)[OF nth_mem[OF that]] by (simp add: inStep_def inView_def)
  with crun_start show ?case by simp
next
  case (crun_step t sched t1 i t2)
  note IH = crun_step.IH[OF crun_step.prems]
  from crun_step.hyps(2) show ?case
  proof cases
    case (cstepI ms w pr w')
    note 1 = this
    let ?m = "ms ! i"
    have l: "length ms = length ms0" "i < length ms0" using IH 1 by auto
    have st: "inStep d g p w0 f (ms0 ! j) (count_list sched j) w (ms ! j)" if "j < length ms0" for j
      using IH 1 that by simp
    have f: "GetCloudEnvFileName (mtAttrib (ms0 ! j)) = f" if "j < length ms0" for j
      using crun_step.prems(3)[OF nth_mem[OF that]] by simp
    have fi: "GetCloudEnvFileName (mtAttrib ?m) = f" using st[OF l(2)] f[OF l(2)] by (simp add: inStep_def)
    have "inStep d g p w0 f (ms0 ! j) (count_list (sched @ [i]) j) w' (ms[i := ?m\<lparr>mtProgress := pr\<rparr>] ! j)"
      if j: "j < length ms0" for j
      using inStep_own[OF crun_step.prems(2) f[OF j] st[OF j]] inStep_other[OF crun_step.prems(2) fi st[OF j]] 1 l j
      by (cases "i = j") auto
    with 1 l show ?thesis by simp
  qed
qed

lemma alone_no_panic:
  assumes "\<exists>n u. alone d g p m n s = (Finished r, u)"
  shows "fst (alone d g p m k s) \<noteq> Panicked e"
proof
  assume k: "fst (alone d g p m k s) = Panicked e"
  obtain n u where n: "alone d g p m n s = (Finished r, u)" using assms by blast
  have "alone d g p m k s = alone d g p m n s"
    by (rule halted_unique) (simp_all add: k n halted_def)
  with k n show False by simp
qed

lemma not_crashed:
  assumes "\<And>j e. j < length ms \<Longrightarrow> mtProgress (ms ! j) \<noteq> Panicked e"
  shows "\<not> crashed ms"
proof
  assume "crashed ms"
  then obtain m where m: "m \<in> set ms" "case mtProgress m of Panicked _ \<Rightarrow> True | _ \<Rightarrow> False"
    by (auto simp: crashed_def list_ex_iff)
  then obtain e where "mtProgress m = Panicked e" by (auto split: progress.splits)
  with m(1) assms show False by (metis in_set_conv_nth)
qed

section \<open>Properties\<close>

text \<open>
  Property C5. Concurrent mounts do not disturb each other. Of mounts that are in flight together and
  name the same cloud environment file, or none, each comes to its end under every schedule: there is
  a number of its own steps, the same for all schedules and whatever the others do, after which it has
  finished with the result that it would have had alone; it never finishes with another result;
  and at any moment the process is alive and any of the mounts can make its next step. It takes what the answer to
  any request takes (the outside calls return and do not panic, listings are finite, bundles are
  complete), and that reading does not change the vault.
\<close>

theorem mounts_independent:
  assumes "calmDeps d nmi sound remaining" "calmGlobals g" "readOnly (depSdk d)"
    and "\<And>m. m \<in> set ms0 \<Longrightarrow> mtProgress m = Arrived \<and> GetCloudEnvFileName (mtAttrib m) = f"
    and "i < length ms0"
    and "r = fst (GetSecretsStoreObjectContent d g p (mtAttrib (ms0 ! i)) (mtSecrets (ms0 ! i))
           (mtPermission (ms0 ! i)) w0)"
  shows "\<exists>N. \<forall>sched w ms. crun d g p (w0, ms0) sched (w, ms) \<longrightarrow>
    (N \<le> count_list sched i \<longrightarrow> mtProgress (ms ! i) = Finished r) \<and>
    (\<forall>q. mtProgress (ms ! i) = Finished q \<longrightarrow> q = r) \<and>
    (\<forall>j<length ms0. \<exists>t. cstep d g p j (w, ms) t)"
proof -
  have fin: "\<exists>n u. alone d g p m n (Arrived, w0) =
      (Finished (fst (GetSecretsStoreObjectContent d g p (mtAttrib m) (mtSecrets m) (mtPermission m) w0)), u)" for m :: "'d mounting"
    using alone_mount[of d g p m w0, OF surjective_pairing] calmS_mount[OF assms(1,2)] unfolding calmS_def by blast
  obtain N u where N: "alone d g p (ms0 ! i) N (Arrived, w0) = (Finished r, u)" using fin[of "ms0 ! i"] assms(6) by blast
  have "(N \<le> count_list sched i \<longrightarrow> mtProgress (ms ! i) = Finished r) \<and>
    (\<forall>q. mtProgress (ms ! i) = Finished q \<longrightarrow> q = r) \<and> (\<forall>j<length ms0. \<exists>t. cstep d g p j (w, ms) t)"
    if run: "crun d g p (w0, ms0) sched (w, ms)" for sched w ms
  proof -
    note st = crun_inStep[OF run refl assms(3,4), simplified]
    have l: "length ms = length ms0" using st by blast
    have pr: "mtProgress (ms ! j) = fst (alone d g p (ms0 ! j) (count_list sched j) (Arrived, w0))" if "j < length ms0" for j
    proof -
      have "ms ! j = (ms0 ! j)\<lparr>mtProgress := fst (alone d g p (ms0 ! j) (count_list sched j) (Arrived, w0))\<rparr>"
        using st that unfolding inStep_def by blast
      then show ?thesis by simp
    qed
    have live: "mtProgress (ms ! j) \<noteq> Panicked e" if j: "j < length ms0" for j e
      unfolding pr[OF j] using fin[of "ms0 ! j"] by (rule alone_no_panic)
    then have "\<not> crashed ms" using l by (intro not_crashed) simp
    then have "\<forall>j<length ms0. \<exists>t. cstep d g p j (w, ms) t"
      using l cstepI[of ms _ d g p w, OF _ _ surjective_pairing] by (metis (no_types))
    moreover have "mtProgress (ms ! i) = Finished r" if "N \<le> count_list sched i"
      using halted_stays[of "(Finished r, u)" d g p "ms0 ! i" "count_list sched i - N"] that N pr[OF assms(5)]
        alone_add[of d g p "ms0 ! i" "count_list sched i - N" N "(Arrived, w0)"] by (simp add: halted_def)
    moreover have "q = r" if "mtProgress (ms ! i) = Finished q" for q
    proof -
      have "fst (alone d g p (ms0 ! i) (count_list sched i) (Arrived, w0)) = Finished q" using that pr[OF assms(5)] by simp
      moreover from this have "alone d g p (ms0 ! i) (count_list sched i) (Arrived, w0) = (Finished r, u)"
        unfolding N[symmetric] by (intro halted_unique) (simp_all add: halted_def N)
      ultimately show ?thesis by simp
    qed
    ultimately show ?thesis by blast
  qed
  then show ?thesis by blast
qed

section \<open>Witnesses\<close>

text \<open>Two mounts of one secret; the first has set the variable when the second arrives.\<close>

definition toyMounting :: "nat progress \<Rightarrow> nat mounting" where
  "toyMounting pr = \<lparr>mtAttrib = toyAttrib, mtSecrets = None, mtPermission = 420, mtProgress = pr\<rparr>"

theorem mounts_independent_witness:
  "\<exists>N. \<forall>sched w ms. crun (toyDeps []) toyGlobals toyProvider (toyWorld, [toyMounting Arrived, toyMounting Arrived]) sched (w, ms) \<longrightarrow>
    N \<le> count_list sched 1 \<longrightarrow> mtProgress (ms ! 1) = Finished (Inr [toyFile])"
proof -
  let ?ms = "[toyMounting Arrived, toyMounting Arrived]"
  obtain w2 where "GetSecretsStoreObjectContent (toyDeps []) toyGlobals toyProvider toyAttrib None 420 toyWorld = (Inr [toyFile], w2)"
    by (rule toy_run)
  then have r: "Inr [toyFile] = fst (GetSecretsStoreObjectContent (toyDeps []) toyGlobals toyProvider (mtAttrib (?ms ! 1))
      (mtSecrets (?ms ! 1)) (mtPermission (?ms ! 1)) toyWorld)" by (simp add: toyMounting_def)
  have ms: "mtProgress m = Arrived \<and> GetCloudEnvFileName (mtAttrib m) = ''/env.json''" if "m \<in> set ?ms" for m
    using that by (auto simp: toyMounting_def toy_params)
  have g: "calmGlobals toyGlobals" by (simp add: calmGlobals_def toyGlobals_def SetProxyTransport_def)
  from mounts_independent[OF toyDeps_calm g toyDeps_readOnly ms _ r] show ?thesis by auto
qed

end
