(* ===== verification/Spec2Isabelle.thy ===== *)
theory Spec2Isabelle
  imports Interleave Startup Robust Concurrent
begin

text \<open>
  Verification of the Azure Key Vault provider for the Secrets Store CSI driver.

  \<^bold>\<open>The program.\<close> A pod that mounts a CSI volume makes the driver send a \<open>Mount\<close> request over a unix
  socket to this provider. The gRPC service (\<open>pkg/server\<close>) decodes the request and calls the
  provider (\<open>pkg/provider\<close>), which reads the parameters of the SecretProviderClass, builds the
  credential of the identity the pod chose (\<open>pkg/auth\<close>), opens the vault (\<open>keyvault.go\<close>),
  resolves the versions of each requested object, fetches secrets, keys and certificates, converts
  and splits certificates, and returns the files that the driver writes into the volume. \<open>main\<close>
  (\<open>cmd/main.go\<close>) prepares the transport of identity binding (\<open>internal/identitybinding\<close>),
  the metrics exporter (\<open>pkg/metrics\<close>) and the socket, and serves until a signal.

  \<^bold>\<open>Theories and sources.\<close>
  \<^item> \<open>Prelude\<close>: Go errors as values, the two shapes of error handling, loops with early returns,
    the same with a state. \<open>GoStrings\<close>, \<open>Encoding\<close>, \<open>Pem\<close>, \<open>Utf8\<close>, \<open>Sha256\<close>, \<open>Json\<close>,
    \<open>TokenJson\<close>, \<open>Pkix\<close>: what the code uses of \<open>strings\<close>, \<open>strconv\<close>, \<open>path/filepath\<close> (Unix
    rules), \<open>encoding/base64\<close>, \<open>hex\<close>, \<open>pem\<close>, \<open>base32\<close>, \<open>json\<close>, \<open>unicode/utf8\<close>,
    \<open>time\<close> (RFC 3339), \<open>crypto/sha256\<close> and \<open>crypto/x509\<close> (public keys in DER), with their
    round trips.
  \<^item> \<open>KeyVaultTypes\<close> (\<open>types.go\<close>, \<open>parameters.go\<close>), \<open>Validate\<close> (\<open>validate.go\<close> and
    \<open>formatKeyVaultObject\<close>), \<open>Versions\<close> (\<open>getLatestNKeyVaultObjects\<close>), \<open>CertChain\<close>
    (\<open>fetchCertChains\<close>), \<open>Certs\<close> (\<open>decodePKCS12\<close>, \<open>splitCertAndKey\<close>, \<open>parsePrivateKey\<close>,
    \<open>getCurve\<close>), \<open>KeyVaultClient\<close> (\<open>keyvault.go\<close>), \<open>Fetch\<close> (\<open>getSecret\<close>, \<open>getKey\<close>,
    \<open>getCertificate\<close>, dispatch and reports), \<open>Provider\<close> (\<open>GetSecretsStoreObjectContent\<close> with
    everything it calls).
  \<^item> \<open>Auth\<close> (\<open>auth.go\<close>), \<open>IdentityBinding\<close> (\<open>identitybinding.go\<close>, \<open>reflect_helpers.go\<close>),
    \<open>Utils\<close> (\<open>pkg/utils\<close>, \<open>pkg/metrics\<close>, \<open>pkg/version\<close>).
  \<^item> \<open>Server\<close> (\<open>server.go\<close>, \<open>healthz.go\<close>), with runs of the server over sequences of
    requests; \<open>Interleave\<close>, the accesses of mounts in flight to the process environment;
    \<open>Startup\<close> (\<open>main.go\<close>); \<open>Robust\<close>, which carries the absence of panics through all of a
    request; \<open>Rotation\<close>, which compares two runs of a mount; \<open>Concurrent\<close>, whole mounts in
    flight, as a step relation whose steps put together are the sequential operation. There a
    listing of versions is one step, although it makes one request per page; a panic of one mount
    ends the process, and a call that does not return hangs its mount only.

  \<^bold>\<open>State.\<close> The world of a mount is the process environment, the reports of vault requests and the
  vault; the vault is of an arbitrary type, and every access may change it. The state of the
  process at start-up adds the umask, the package variables of \<open>pkg/auth\<close> and the log of the
  steps. Errors are left results, run-time panics are errors of their own that no caller wraps; a
  call that never returns is represented like a panic, by the value \<open>noReturn\<close>.
  A Go map that is only looked up is a map; one that is ranged over is a list of pairs in the order
  of the iteration, which an argument chooses.

  \<^bold>\<open>Interfaces.\<close> \<open>Provider\<close> states what the loops of a mount need of resolving and fetching as
  the locales \<open>object_source\<close> (file names stay safe) and \<open>framed_source\<close> (what a request leaves of
  the state), interpreted by the vault client. \<open>Server\<close> states what a handler owes to the runs of
  the server as \<open>rpc_contract\<close>, interpreted by the provider behind the interceptor. \<open>Startup\<close>
  states what the start-up steps leave untouched as \<open>boot_frame\<close>, interpreted three times, for the
  environment, for the servers that a start-up may have started before it serves, and for the umask.

  \<^bold>\<open>What is shown.\<close>
  \<^item> Mounts: paths stay inside the volume; the vault is touched only after every check; every file
    belongs to a requested object; a plain secret arrives unchanged; reports and environment.
  \<^item> Certificates: a chain in any order comes out as leaf, intermediates, root; chain building
    permutes or returns its input; splitting and PFX conversion lose nothing. Keys: a reader of the
    file of a key decodes exactly the key of the vault.
  \<^item> Versions: the newest versions, all that were asked for, with distinct names; listing ends when the pager does and gives
    exactly the enabled ones.
  \<^item> Identity: the tokens of a request are read exactly, no token crosses audiences, a built
    configuration is complete, identity binding never falls back to a direct connection, and its
    start-up errors are lazy.
  \<^item> Server: the JSON transport is transparent, errors hand out nothing, every request is recorded
    once, the health endpoint tells the truth; whatever the texts of the requests are, the server
    answers and goes on answering, as long as the services it calls keep to what they document.
  \<^item> Rotation: a repeated mount of an unchanged vault gives the same response, and the object
    versions that the driver compares identify the contents, also of objects synced in several versions.
  \<^item> Concurrency: mounts that agree on the cloud environment file end as if alone, under every
    schedule and after a number of their own steps that does not depend on it; mounts that name different files may read each other's.
  \<^item> Start-up: when the process serves, that a failed start serves no mounts, the umask under which the
    socket is made and the server runs, the environment of the process.

  \<^bold>\<open>Loops.\<close> No fuel is used: the loops of the code are structural recursions or terminate by the
  length of the remaining input (PEM blocks, JSON text). The loop over a pager of the SDK is the
  exception, since nothing in the code bounds it: it is a partial function, shown to return when
  each page leaves fewer pages, and shown to run forever on a pager whose links form a cycle.

  \<^bold>\<open>Parameters.\<close> Code outside the repository is an argument: the Azure SDK (clients, credentials,
  pagers), the cloud tables of go-autorest, the YAML decoder, the PKCS12 decoder, the X.509
  certificate parser and the codecs of private keys, the file system, TLS, HTTP, gRPC and the
  OpenTelemetry SDK. Hypotheses on them are written in the statements. The calls
  of the SDK call back the credential of the client; that they return is assumed only of clients whose
  credential does not panic. The credential for pod identity is code of the repository: it panics on the
  body \<open>null\<close> of the NMI server, as \<open>Auth\<close> shows, and on no other answer, as \<open>Robust\<close> shows.

  \<^bold>\<open>Not modelled.\<close> Windows paths; log lines, clocks and durations; the generated mocks; the exact
  text and offset of JSON errors; floating point (the expiry of an NMI token is converted by an
  argument); tests, charts and manifests.
\<close>

end
